theory Spec2Isabelle
  imports Complex_Main "HOL-Library.Sublist" "HOL-Library.AList"
begin

section \<open>JavaScript values\<close>

text \<open>
  Strings are lists of characters.  Exceptions are values of the type \<open>error\<close>; a
  computation that may throw returns \<open>error + 'a\<close> with \<open>Inl\<close> for the exception.

  A value produced by \<open>JSON.parse\<close> is a \<open>json\<close>.  An object is the list of its own
  properties in the order \<open>Object.entries\<close> enumerates them, each name once.  The result
  of a property read is a \<open>json option\<close>, where \<open>None\<close> is \<open>undefined\<close>.
\<close>

datatype error = TypeError | SyntaxError | IOError | Error string | FetchFailed

datatype json =
    JNull
  | JBool bool
  | JNumber real
  | JString string
  | JArray "json list"
  | JObject "(string \<times> json) list"

text \<open>
  \<open>v.name\<close> for a property name that no built-in prototype defines (the names read by
  the store are \<open>captures\<close>, \<open>record\<close>, \<open>replay\<close> and \<open>id\<close>): reading from \<open>null\<close> or
  \<open>undefined\<close> throws a TypeError, reading from an object gives the own property or
  \<open>undefined\<close>, reading from any other value gives \<open>undefined\<close>.
\<close>

fun property :: "json option \<Rightarrow> string \<Rightarrow> error + json option" where
  "property None name = Inl TypeError"
| "property (Some JNull) name = Inl TypeError"
| "property (Some (JObject kvs)) name = Inr (map_of kvs name)"
| "property (Some v) name = Inr None"

text \<open>The truth value of a condition \<open>if (v)\<close>.\<close>

fun truthy_json :: "json \<Rightarrow> bool" where
  "truthy_json JNull = False"
| "truthy_json (JBool b) = b"
| "truthy_json (JNumber n) = (n \<noteq> 0)"
| "truthy_json (JString s) = (s \<noteq> [])"
| "truthy_json (JArray xs) = True"
| "truthy_json (JObject kvs) = True"


section \<open>Data model (types.ts)\<close>

record CapturePayload =
  headers :: "(string \<times> string) list"
  body :: "string option"
  size' :: nat

record CaptureRecord =
  id' :: string
  createdAt :: string
  replayOf :: "string option"
  method' :: string
  targetUrl :: string
  path :: string
  statusCode :: int
  durationMs :: int
  request :: CapturePayload
  response :: CapturePayload

record ReplaySource =
  id' :: string
  method' :: string
  targetUrl :: string
  path :: string
  headers :: "(string \<times> string) list"
  body :: "string option"


section \<open>The capture store (captureStore.ts)\<close>

text \<open>
  An element of the array \<open>captures\<close> is either an object \<open>{ record, replay }\<close> built by
  \<open>add\<close> from its two typed arguments, or a value that \<open>JSON.parse\<close> returned from the
  persistence file: \<open>load\<close> casts the parsed document to the snapshot type without
  looking at it, so such an element can be any JSON value.
\<close>

datatype entry =
    StoredCapture CaptureRecord ReplaySource
  | Parsed json

datatype record_val = Record CaptureRecord | RawRecord "json option"

datatype replay_val = Replay ReplaySource | RawReplay "json option"

text \<open>
  The index \<open>byId\<close> is a \<open>Map\<close>.  Its lookups (\<open>get\<close>, \<open>getReplaySource\<close>) take a string,
  and a key that is not a string is equal to no string, so the model keeps the string
  keys: setting or deleting any other key leaves every lookup as it was.
\<close>

record store =
  captures :: "entry list"
  byId :: "string \<rightharpoonup> entry"
  maxCaptures :: int

definition InMemoryCaptureStore :: "int option \<Rightarrow> store" where
  "InMemoryCaptureStore maxCaptures' =
     \<lparr> captures = [], byId = Map.empty,
       maxCaptures = (case maxCaptures' of None \<Rightarrow> 500 | Some n \<Rightarrow> n) \<rparr>"

text \<open>\<open>entry.record\<close>, \<open>entry.replay\<close> and \<open>entry.record.id\<close>.\<close>

fun entry_record :: "entry \<Rightarrow> error + record_val" where
  "entry_record (StoredCapture r p) = Inr (Record r)"
| "entry_record (Parsed j) =
     (case property (Some j) ''record'' of Inl e \<Rightarrow> Inl e | Inr v \<Rightarrow> Inr (RawRecord v))"

fun entry_replay :: "entry \<Rightarrow> error + replay_val" where
  "entry_replay (StoredCapture r p) = Inr (Replay p)"
| "entry_replay (Parsed j) =
     (case property (Some j) ''replay'' of Inl e \<Rightarrow> Inl e | Inr v \<Rightarrow> Inr (RawReplay v))"

fun entry_record_id :: "entry \<Rightarrow> error + json option" where
  "entry_record_id (StoredCapture r p) = Inr (Some (JString (CaptureRecord.id' r)))"
| "entry_record_id (Parsed j) =
     (case property (Some j) ''record'' of Inl e \<Rightarrow> Inl e | Inr v \<Rightarrow> property v ''id'')"

fun truthy :: "entry \<Rightarrow> bool" where
  "truthy (StoredCapture r p) = True"
| "truthy (Parsed j) = truthy_json j"

fun Map_set :: "(string \<rightharpoonup> entry) \<Rightarrow> json option \<Rightarrow> entry \<Rightarrow> (string \<rightharpoonup> entry)" where
  "Map_set m (Some (JString k)) e = m(k \<mapsto> e)"
| "Map_set m key e = m"

fun Map_delete :: "(string \<rightharpoonup> entry) \<Rightarrow> json option \<Rightarrow> (string \<rightharpoonup> entry)" where
  "Map_delete m (Some (JString k)) = m(k := None)"
| "Map_delete m key = m"

text \<open>
  \<open>prune\<close> is a \<open>while\<close> loop.  \<open>pop\<close> on an empty array returns \<open>undefined\<close> and changes
  nothing, so with a negative \<open>maxCaptures\<close> the loop never ends: the result \<open>None\<close> is a
  call that does not return.  A call that returns gives the state it leaves behind,
  together with \<open>Inl\<close> the exception it threw or \<open>Inr ()\<close>.
\<close>

partial_function (option) prune :: "store \<Rightarrow> ((error + unit) \<times> store) option" where
  "prune s =
     (if int (length (captures s)) > maxCaptures s then
        (case captures s of
           [] \<Rightarrow> prune s
         | c # cs \<Rightarrow>
             let removed = last (captures s);
                 s1 = s\<lparr> captures := butlast (captures s) \<rparr>
             in if truthy removed then
                  (case entry_record_id removed of
                     Inl e \<Rightarrow> Some (Inl e, s1)
                   | Inr k \<Rightarrow> prune (s1\<lparr> byId := Map_delete (byId s1) k \<rparr>))
                else prune s1)
      else Some (Inr (), s))"

definition add :: "CaptureRecord \<Rightarrow> ReplaySource \<Rightarrow> store \<Rightarrow> ((error + CaptureRecord) \<times> store) option" where
  "add record' replay s =
     (let entry = StoredCapture record' replay;
          s1 = s\<lparr> captures := entry # captures s \<rparr>;
          s2 = s1\<lparr> byId := (byId s1)(CaptureRecord.id' record' \<mapsto> entry) \<rparr>
      in case prune s2 of
           None \<Rightarrow> None
         | Some (Inl e, s3) \<Rightarrow> Some (Inl e, s3)
         | Some (Inr u, s3) \<Rightarrow> Some (Inr record', s3))"

fun map_records :: "entry list \<Rightarrow> error + record_val list" where
  "map_records [] = Inr []"
| "map_records (e # es) =
     (case entry_record e of
        Inl x \<Rightarrow> Inl x
      | Inr r \<Rightarrow> (case map_records es of Inl x \<Rightarrow> Inl x | Inr rs \<Rightarrow> Inr (r # rs)))"

definition list' :: "store \<Rightarrow> error + record_val list" where
  "list' s = map_records (captures s)"

definition get :: "store \<Rightarrow> string \<Rightarrow> error + record_val option" where
  "get s i =
     (case byId s i of
        None \<Rightarrow> Inr None
      | Some e \<Rightarrow> (case entry_record e of Inl x \<Rightarrow> Inl x | Inr r \<Rightarrow> Inr (Some r)))"

definition getReplaySource :: "store \<Rightarrow> string \<Rightarrow> error + replay_val option" where
  "getReplaySource s i =
     (case byId s i of
        None \<Rightarrow> Inr None
      | Some e \<Rightarrow> (case entry_replay e of Inl x \<Rightarrow> Inl x | Inr r \<Rightarrow> Inr (Some r)))"

text \<open>A client that calls \<open>add\<close> once for each pair of a list, in order, and stops at the
  first call that throws.\<close>

fun add_all :: "(CaptureRecord \<times> ReplaySource) list \<Rightarrow> store \<Rightarrow> ((error + unit) \<times> store) option" where
  "add_all [] s = Some (Inr (), s)"
| "add_all (x # xs) s =
     (case add (fst x) (snd x) s of
        None \<Rightarrow> None
      | Some (Inl e, s') \<Rightarrow> Some (Inl e, s')
      | Some (Inr r, s') \<Rightarrow> add_all xs s')"


section \<open>The JavaScript runtime\<close>

text \<open>
  The built-in functions the program calls and the embedding does not define are the
  fields of a \<open>runtime\<close>: \<open>JSON.parse\<close>, \<open>JSON.stringify(value, null, indent)\<close>,
  \<open>String.prototype.replace\<close> with a regular expression (its source and flags) and a
  replacement pattern, \<open>String.prototype.toUpperCase\<close> and \<open>toLowerCase\<close>, the \<open>URL\<close>
  constructor (an input and an optional base), the setter of \<open>pathname\<close> (which parses
  the path it is given: it resolves dot segments and percent-encodes) and \<open>toString\<close>,
  and the \<open>message\<close> of an exception.  Every theorem with a variable \<open>rt\<close> holds for
  every runtime.
\<close>

record url =
  origin :: string
  pathname :: string
  searchParams :: "(string \<times> string) list"
  hash :: string

type_synonym regexp = "string \<times> string"

record runtime =
  JSON_parse :: "string \<Rightarrow> error + json"
  JSON_stringify :: "json \<Rightarrow> nat \<Rightarrow> string"
  String_replace :: "string \<Rightarrow> regexp \<Rightarrow> string \<Rightarrow> string"
  toUpperCase :: "string \<Rightarrow> string"
  toLowerCase :: "string \<Rightarrow> string"
  URL_parse :: "string \<Rightarrow> string option \<Rightarrow> error + url"
  URL_set_pathname :: "url \<Rightarrow> string \<Rightarrow> url"
  URL_toString :: "url \<Rightarrow> string"
  message :: "error \<Rightarrow> string"

text \<open>
  A string is the list of the bytes of its UTF-8 encoding, so \<open>Buffer.byteLength\<close> is
  \<open>length\<close>.  \<open>lower_ascii\<close> and \<open>upper_ascii\<close> map the letters A to Z and a to z and leave
  every other byte as it is; they are not the string methods of the runtime.
\<close>

definition lower_ascii :: "string \<Rightarrow> string" where
  "lower_ascii s =
     map (\<lambda>c. case map_of (zip ''ABCDEFGHIJKLMNOPQRSTUVWXYZ'' ''abcdefghijklmnopqrstuvwxyz'') c of
                 None \<Rightarrow> c | Some l \<Rightarrow> l) s"

definition upper_ascii :: "string \<Rightarrow> string" where
  "upper_ascii s =
     map (\<lambda>c. case map_of (zip ''abcdefghijklmnopqrstuvwxyz'' ''ABCDEFGHIJKLMNOPQRSTUVWXYZ'') c of
                 None \<Rightarrow> c | Some u \<Rightarrow> u) s"

fun includes' :: "string \<Rightarrow> string \<Rightarrow> bool" where
  "includes' [] p = (p = [])"
| "includes' (c # cs) p = (prefix p (c # cs) \<or> includes' cs p)"

definition startsWith :: "string \<Rightarrow> string \<Rightarrow> bool" where
  "startsWith s p = prefix p s"

definition endsWith :: "string \<Rightarrow> string \<Rightarrow> bool" where
  "endsWith s p = suffix p s"

definition Buffer_byteLength :: "string \<Rightarrow> nat" where
  "Buffer_byteLength s = length s"

text \<open>
  A regular expression of the form \<open>/a|b|c/i\<close>, whose language is a finite set of
  strings, is the list of those strings in lower case: \<open>/api[-_]?key/i\<close> is
  \<open>[''apikey'', ''api-key'', ''api_key'']\<close>.  \<open>test\<close> holds when one of them occurs in the
  subject, letter case ignored.  The patterns have the flag \<open>i\<close> and not the flag \<open>u\<close>:
  a character outside ASCII is then never equal to an ASCII letter, so only the
  letters A to Z are folded.
\<close>

type_synonym pattern = "string list"

definition test :: "pattern \<Rightarrow> string \<Rightarrow> bool" where
  "test pat s = list_ex (\<lambda>alt. includes' (lower_ascii s) alt) pat"

text \<open>
  \<open>obj[key] = value\<close> on an object that was created by the literal \<open>{}\<close>.  The key
  \<open>__proto__\<close> names the prototype accessor that every such object inherits: the
  assignment calls its setter and creates no own property (the setter replaces the
  prototype when the value is an object or \<open>null\<close> and does nothing otherwise; neither
  \<open>Object.entries\<close> nor \<open>JSON.stringify\<close> looks at the prototype).  Every other key is
  created, or overwritten in its place.
\<close>

definition assign :: "(string \<times> 'v) list \<Rightarrow> string \<Rightarrow> 'v \<Rightarrow> (string \<times> 'v) list" where
  "assign obj key v = (if key = ''__proto__'' then obj else AList.update key v obj)"


section \<open>Redaction (redaction.ts)\<close>

definition REDACTION_TOKEN :: string where
  "REDACTION_TOKEN = ''[REDACTED]''"

definition sensitiveHeaderPatterns :: "pattern list" where
  "sensitiveHeaderPatterns =
     [[''authorization''], [''cookie''], [''token''],
      [''apikey'', ''api-key'', ''api_key''], [''secret'']]"

definition sensitiveFieldPattern :: pattern where
  "sensitiveFieldPattern =
     [''token'', ''secret'', ''password'', ''authorization'',
      ''apikey'', ''api-key'', ''api_key'', ''session'', ''cookie'']"

definition redactHeaders :: "(string \<times> string option) list \<Rightarrow> (string \<times> string) list" where
  "redactHeaders headers' =
     foldl (\<lambda>result (key, value').
              case value' of
                None \<Rightarrow> result
              | Some v \<Rightarrow>
                  if length v = 0 then result
                  else let shouldRedact = list_ex (\<lambda>pat. test pat key) sensitiveHeaderPatterns
                       in assign result key (if shouldRedact then REDACTION_TOKEN else v))
       [] headers'"


fun redactJsonObject :: "json \<Rightarrow> string \<Rightarrow> json" where
  "redactJsonObject (JArray items) parentKey =
     JArray (map (\<lambda>item. redactJsonObject item parentKey) items)"
| "redactJsonObject (JObject entries) parentKey =
     JObject (foldl (\<lambda>copy kv.
        assign copy (fst kv)
          (if test sensitiveFieldPattern (fst kv) \<or> test sensitiveFieldPattern parentKey
           then JString REDACTION_TOKEN
           else redactJsonObject (snd kv) (fst kv))) [] entries)"
| "redactJsonObject (JString s) parentKey =
     (if test sensitiveFieldPattern parentKey then JString REDACTION_TOKEN else JString s)"
| "redactJsonObject v parentKey = v"

text \<open>
  The two regular expressions of \<open>redactText\<close>, by their source and their flags.  A
  string literal cannot hold a backslash, so the source is put together around
  \<open>backslash\<close>.
\<close>

definition backslash :: string where
  "backslash = [CHR 0x5C]"

definition bearer_regexp :: regexp where
  \<open>bearer_regexp = (''(bearer'' @ backslash @ ''s+)[^'' @ backslash @ ''s"']+'', ''gi'')\<close>

definition field_regexp :: regexp where
  \<open>field_regexp =
     (''(["']?(token|secret|password|api[_-]?key)["']?'' @ backslash @ ''s*[:=]'' @ backslash
        @ ''s*["'])[^"']*(["'])'', ''gi'')\<close>

definition redactText :: "runtime \<Rightarrow> string \<Rightarrow> string" where
  "redactText rt body' =
     String_replace rt
       (String_replace rt body' bearer_regexp (''$1'' @ REDACTION_TOKEN))
       field_regexp (''$1'' @ REDACTION_TOKEN @ ''$3'')"

definition redactBody :: "runtime \<Rightarrow> string option \<Rightarrow> string option \<Rightarrow> string option" where
  "redactBody rt body' contentType =
     (case body' of
        None \<Rightarrow> None
      | Some b \<Rightarrow>
          if length b = 0 then None
          else
            let isJsonContentType =
                  (case contentType of None \<Rightarrow> False | Some ct \<Rightarrow> includes' ct ''application/json'')
            in if isJsonContentType then
                 (case JSON_parse rt b of
                    Inr parsed \<Rightarrow> Some (JSON_stringify rt (redactJsonObject parsed '''') 2)
                  | Inl e \<Rightarrow> Some (redactText rt b))
               else Some (redactText rt b))"


section \<open>The file-backed store (captureStore.ts)\<close>

text \<open>
  What \<open>load\<close> finds at \<open>filePath\<close>: no file, a file that \<open>readFileSync\<close> cannot read, or
  the text of the file.
\<close>

datatype store_file = Missing | Unreadable | Content string

text \<open>
  \<open>hydrate\<close> pushes every element on \<open>captures\<close> before it reads \<open>entry.record.id\<close>.  When
  that read throws, the exception leaves \<open>hydrate\<close> with the elements pushed so far still
  in the array, and \<open>prune\<close> is not reached.
\<close>

fun hydrate_loop :: "json list \<Rightarrow> store \<Rightarrow> (error + unit) \<times> store" where
  "hydrate_loop [] s = (Inr (), s)"
| "hydrate_loop (entry # entries) s =
     (let s1 = s\<lparr> captures := captures s @ [Parsed entry] \<rparr>
      in case entry_record_id (Parsed entry) of
           Inl e \<Rightarrow> (Inl e, s1)
         | Inr k \<Rightarrow> hydrate_loop entries (s1\<lparr> byId := Map_set (byId s1) k (Parsed entry) \<rparr>))"

definition hydrate :: "json list \<Rightarrow> store \<Rightarrow> ((error + unit) \<times> store) option" where
  "hydrate entries s =
     (case hydrate_loop entries s of
        (Inl e, s1) \<Rightarrow> Some (Inl e, s1)
      | (Inr u, s1) \<Rightarrow> prune s1)"

text \<open>
  \<open>parsed?.name\<close> is \<open>undefined\<close> when \<open>parsed\<close> is \<open>null\<close>, and \<open>parsed.name\<close> otherwise.
  \<open>snapshot_entries\<close> is the value of \<open>entries\<close> in \<open>load\<close>.  \<open>load\<close> catches every exception
  of its \<open>try\<close> block and keeps the state the block left.
\<close>

fun optional_property :: "json \<Rightarrow> string \<Rightarrow> json option" where
  "optional_property JNull name = None"
| "optional_property (JObject kvs) name = map_of kvs name"
| "optional_property v name = None"

definition snapshot_entries :: "json \<Rightarrow> json list" where
  "snapshot_entries parsed =
     (case optional_property parsed ''captures'' of Some (JArray xs) \<Rightarrow> xs | other \<Rightarrow> [])"

definition load :: "runtime \<Rightarrow> store_file \<Rightarrow> store \<Rightarrow> store option" where
  "load rt f s =
     (case f of
        Missing \<Rightarrow> Some s
      | Unreadable \<Rightarrow> Some s
      | Content raw \<Rightarrow>
          (case JSON_parse rt raw of
             Inl e \<Rightarrow> Some s
           | Inr parsed \<Rightarrow>
               (case hydrate (snapshot_entries parsed) s of
                  None \<Rightarrow> None
                | Some (r, s1) \<Rightarrow> Some s1)))"

definition FileCaptureStore :: "runtime \<Rightarrow> store_file \<Rightarrow> int option \<Rightarrow> store option" where
  "FileCaptureStore rt f maxCaptures' = load rt f (InMemoryCaptureStore maxCaptures')"


section \<open>The server (index.ts)\<close>

definition hopByHopHeaders :: "string list" where
  "hopByHopHeaders =
     [''connection'', ''content-length'', ''host'', ''transfer-encoding'', ''x-proxylab-target'']"

definition joinPath :: "string \<Rightarrow> string \<Rightarrow> string" where
  "joinPath basePath suffix' =
     (let left = (if endsWith basePath ''/'' then butlast basePath else basePath);
          right = (if startsWith suffix' ''/'' then suffix' else ''/'' @ suffix')
      in if length left = 0 then right else left @ right)"

datatype header_value = HString string | HArray "string list"

fun join :: "string list \<Rightarrow> string \<Rightarrow> string" where
  "join [] sep = []"
| "join [x] sep = x"
| "join (x # y # ys) sep = x @ sep @ join (y # ys) sep"

definition normalizeHeaders ::
  "runtime \<Rightarrow> (string \<times> header_value option) list \<Rightarrow> (string \<times> string) list" where
  "normalizeHeaders rt headers' =
     foldl (\<lambda>result (key, value').
              if toLowerCase rt key \<in> set hopByHopHeaders then result
              else (case value' of
                      Some (HString v) \<Rightarrow> assign result key v
                    | Some (HArray vs) \<Rightarrow>
                        if length vs > 0 then assign result key (join vs '', '') else result
                    | None \<Rightarrow> result))
       [] headers'"

text \<open>
  The body Fastify hands to a handler: nothing, a value its JSON parser produced (a
  string body is \<open>Value (JString s)\<close>), or a Buffer, given by its text.  For a number or
  a boolean \<open>String(body)\<close> and \<open>JSON.stringify(body)\<close> are the same text.
\<close>

datatype raw_body = NoBody | Value json | Buffer string

fun toRawBody :: "runtime \<Rightarrow> raw_body \<Rightarrow> string option" where
  "toRawBody rt NoBody = None"
| "toRawBody rt (Value JNull) = None"
| "toRawBody rt (Value (JString s)) = Some s"
| "toRawBody rt (Buffer b) = Some b"
| "toRawBody rt (Value v) = Some (JSON_stringify rt v 0)"

record response_info =
  statusCode :: int
  durationMs :: int
  headers :: "(string \<times> string) list"
  body :: "string option"
  replayOf :: "string option"

text \<open>
  \<open>withCapture\<close> takes the values that \<open>randomUUID()\<close> and \<open>new Date().toISOString()\<close>
  return as its first two arguments.
\<close>

definition withCapture ::
  "runtime \<Rightarrow> string \<Rightarrow> string \<Rightarrow> store \<Rightarrow> ReplaySource \<Rightarrow> response_info
     \<Rightarrow> ((error + CaptureRecord) \<times> store) option" where
  "withCapture rt uuid now store' replay response' =
     (let requestContentType = map_of (ReplaySource.headers replay) ''content-type'';
          responseContentType = map_of (response_info.headers response') ''content-type'';
          responseBody = (case response_info.body response' of None \<Rightarrow> [] | Some b \<Rightarrow> b);
          record' =
            \<lparr> CaptureRecord.id' = uuid,
              createdAt = now,
              CaptureRecord.replayOf = response_info.replayOf response',
              CaptureRecord.method' = toUpperCase rt (ReplaySource.method' replay),
              CaptureRecord.targetUrl = ReplaySource.targetUrl replay,
              CaptureRecord.path = ReplaySource.path replay,
              CaptureRecord.statusCode = response_info.statusCode response',
              CaptureRecord.durationMs = response_info.durationMs response',
              request =
                \<lparr> CapturePayload.headers =
                    redactHeaders (map (\<lambda>(k, v). (k, Some v)) (ReplaySource.headers replay)),
                  CapturePayload.body = redactBody rt (ReplaySource.body replay) requestContentType,
                  size' = (case ReplaySource.body replay of
                             None \<Rightarrow> 0
                           | Some b \<Rightarrow> if b = [] then 0 else Buffer_byteLength b) \<rparr>,
              response =
                \<lparr> CapturePayload.headers =
                    redactHeaders (map (\<lambda>(k, v). (k, Some v)) (response_info.headers response')),
                  CapturePayload.body = redactBody rt (Some responseBody) responseContentType,
                  size' = Buffer_byteLength responseBody \<rparr> \<rparr>
      in add record' replay store')"


text \<open>
  \<open>fetchImpl\<close> is a parameter of the server.  It returns a \<open>Response\<close> or rejects, and so does
  reading the text of the response.
\<close>

record RequestInit =
  method' :: string
  headers :: "(string \<times> string) list"
  body :: "string option"

record Response =
  status :: int
  headers :: "(string \<times> string) list"
  text' :: "error + string"

type_synonym FetchImpl = "string \<Rightarrow> RequestInit \<Rightarrow> error + Response"

record upstream =
  statusCode :: int
  headers :: "(string \<times> string) list"
  body :: string

text \<open>The arguments of the call of \<open>fetchImpl\<close> in \<open>proxyToTarget\<close>.\<close>

definition fetch_call :: "runtime \<Rightarrow> ReplaySource \<Rightarrow> string \<times> RequestInit" where
  "fetch_call rt replay =
     (ReplaySource.targetUrl replay,
      \<lparr> RequestInit.method' = toUpperCase rt (ReplaySource.method' replay),
        RequestInit.headers = ReplaySource.headers replay,
        RequestInit.body =
          (if ReplaySource.method' replay = ''GET'' \<or> ReplaySource.method' replay = ''HEAD''
           then None else ReplaySource.body replay) \<rparr>)"

definition proxyToTarget :: "runtime \<Rightarrow> FetchImpl \<Rightarrow> ReplaySource \<Rightarrow> error + upstream" where
  "proxyToTarget rt fetchImpl replay =
     (case fetchImpl (fst (fetch_call rt replay)) (snd (fetch_call rt replay)) of
        Inl e \<Rightarrow> Inl e
      | Inr upstream' \<Rightarrow>
          let headers' = foldl (\<lambda>h (key, value'). assign h key value') []
                           (Response.headers upstream')
          in (case text' upstream' of
                Inl e \<Rightarrow> Inl e
              | Inr t \<Rightarrow>
                  Inr \<lparr> upstream.statusCode = status upstream',
                        upstream.headers = headers',
                        upstream.body = t \<rparr>))"

record request =
  method' :: string
  params :: "(string \<times> string) list"
  url' :: string
  headers :: "(string \<times> header_value option) list"
  body :: raw_body

text \<open>
  \<open>buildReplaySourceFromRequest\<close> takes the value that \<open>randomUUID()\<close> returns as an
  argument.  \<open>rawTarget\<close> is the header when the header is a string, and the query
  parameter otherwise; \<open>!rawTarget\<close> holds for \<open>null\<close> and for the empty string.
\<close>

definition rawTarget :: "request \<Rightarrow> url \<Rightarrow> string option" where
  "rawTarget req requestQuery =
     (let targetFromHeader = map_of (request.headers req) ''x-proxylab-target'';
          targetFromQuery = map_of (searchParams requestQuery) ''target''
      in case targetFromHeader of
           Some (Some (HString h)) \<Rightarrow> Some h
         | other \<Rightarrow> targetFromQuery)"

definition buildReplaySourceFromRequest :: "runtime \<Rightarrow> string \<Rightarrow> request \<Rightarrow> error + ReplaySource" where
  "buildReplaySourceFromRequest rt uuid req =
     (case URL_parse rt (url' req) (Some ''http://localhost'') of
        Inl e \<Rightarrow> Inl e
      | Inr requestQuery \<Rightarrow>
          (case rawTarget req requestQuery of
             None \<Rightarrow> Inl (Error ''Missing target URL. Set x-proxylab-target header or target query.'')
           | Some target \<Rightarrow>
               if target = [] then
                 Inl (Error ''Missing target URL. Set x-proxylab-target header or target query.'')
               else
                 (case URL_parse rt target None of
                    Inl e \<Rightarrow> Inl e
                  | Inr baseTarget \<Rightarrow>
                      let star = (case map_of (params req) ''*'' of None \<Rightarrow> [] | Some p \<Rightarrow> p);
                          baseTarget1 =
                            URL_set_pathname rt baseTarget (joinPath (pathname baseTarget) star);
                          baseTarget2 =
                            foldl (\<lambda>u (key, value').
                                     if key \<noteq> ''target''
                                     then u\<lparr> searchParams := searchParams u @ [(key, value')] \<rparr>
                                     else u)
                              baseTarget1 (searchParams requestQuery)
                      in Inr \<lparr> ReplaySource.id' = uuid,
                               ReplaySource.method' = toUpperCase rt (request.method' req),
                               ReplaySource.targetUrl = URL_toString rt baseTarget2,
                               ReplaySource.path = ''/'' @ star,
                               ReplaySource.headers = normalizeHeaders rt (request.headers req),
                               ReplaySource.body = toRawBody rt (request.body req) \<rparr>)))"

text \<open>
  The state of a server is its capture store; the model adds the list of the calls of
  \<open>fetchImpl\<close> made so far.  The inputs of one request that the handler does not choose
  are an \<open>env\<close>: \<open>fetchImpl\<close>, the results of the successive calls of \<open>randomUUID()\<close> and of
  \<open>Date.now()\<close>, and the result of \<open>new Date().toISOString()\<close>.
\<close>

record server =
  captureStore :: store
  upstream_calls :: "(string \<times> RequestInit) list"

record env =
  fetchImpl :: FetchImpl
  randomUUID :: "nat \<Rightarrow> string"
  Date_now :: "nat \<Rightarrow> int"
  Date_toISOString :: string


text \<open>
  What a handler sends: \<open>{ error: message }\<close>, \<open>{ item: record }\<close> or a text.  A handler
  that throws sends nothing itself (\<open>Rejected\<close>: the framework answers for it).  The
  handlers are typed for the replay sources that \<open>add\<close> stored; \<open>Untyped\<close> stands for
  what the replay handler does with a replay source that came out of the persistence
  file, which the embedding leaves open.
\<close>

datatype reply_payload = ErrorObject string | ItemObject CaptureRecord | Text string

record reply =
  code :: int
  headers :: "(string \<times> string) list"
  payload :: reply_payload

datatype outcome = Sent reply | Rejected error | Untyped

datatype body_override = Absent | Null | Given string

record overrides =
  method' :: "string option"
  targetUrl :: "string option"
  headers :: "(string \<times> string) list option"
  body :: body_override

record ReplayRequest =
  id' :: "string option"
  overrides :: "overrides option"

text \<open>
  \<open>{ ...a, ...b }\<close>.  A spread defines the properties it copies, so it copies an own
  property named \<open>__proto__\<close> like any other.
\<close>

definition spread :: "(string \<times> 'v) list \<Rightarrow> (string \<times> 'v) list \<Rightarrow> (string \<times> 'v) list" where
  "spread a b = foldl (\<lambda>obj (key, value'). AList.update key value' obj) a b"

definition merge_overrides :: "runtime \<Rightarrow> ReplaySource \<Rightarrow> overrides option \<Rightarrow> ReplaySource" where
  "merge_overrides rt source' ov =
     source'\<lparr>
       ReplaySource.method' :=
         (case Option.bind ov overrides.method' of
            Some m \<Rightarrow> toUpperCase rt m
          | None \<Rightarrow> ReplaySource.method' source'),
       ReplaySource.targetUrl :=
         (case Option.bind ov overrides.targetUrl of
            Some u \<Rightarrow> u
          | None \<Rightarrow> ReplaySource.targetUrl source'),
       ReplaySource.headers :=
         spread (ReplaySource.headers source')
           (case Option.bind ov overrides.headers of Some h \<Rightarrow> h | None \<Rightarrow> []),
       ReplaySource.body :=
         (case ov of
            None \<Rightarrow> ReplaySource.body source'
          | Some o' \<Rightarrow>
              (case overrides.body o' of
                 Null \<Rightarrow> None
               | Absent \<Rightarrow> ReplaySource.body source'
               | Given b \<Rightarrow> Some b)) \<rparr>"

definition replay_handler :: "runtime \<Rightarrow> env \<Rightarrow> ReplayRequest option \<Rightarrow> server \<Rightarrow> (outcome \<times> server) option" where
  "replay_handler rt ev payload' sv =
     (case Option.bind payload' ReplayRequest.id' of
        None \<Rightarrow>
          Some (Sent \<lparr> code = 400, reply.headers = [], payload = ErrorObject ''Replay id is required'' \<rparr>, sv)
      | Some i \<Rightarrow>
          if i = [] then
            Some (Sent \<lparr> code = 400, reply.headers = [], payload = ErrorObject ''Replay id is required'' \<rparr>, sv)
          else
            (case getReplaySource (captureStore sv) i of
               Inl e \<Rightarrow> Some (Rejected e, sv)
             | Inr None \<Rightarrow>
                 Some (Sent \<lparr> code = 404, reply.headers = [], payload = ErrorObject ''Capture not found'' \<rparr>, sv)
             | Inr (Some (RawReplay v)) \<Rightarrow> Some (Untyped, sv)
             | Inr (Some (Replay source')) \<Rightarrow>
                 let replay = merge_overrides rt source' (Option.bind payload' ReplayRequest.overrides);
                     started = Date_now ev 0;
                     sv1 = sv\<lparr> upstream_calls := upstream_calls sv @ [fetch_call rt replay] \<rparr>
                 in (case proxyToTarget rt (fetchImpl ev) replay of
                       Inl e \<Rightarrow> Some (Rejected e, sv1)
                     | Inr upstream' \<Rightarrow>
                         let durationMs' = Date_now ev 1 - started
                         in (case withCapture rt (randomUUID ev 0) (Date_toISOString ev)
                                    (captureStore sv1) replay
                                    \<lparr> response_info.statusCode = upstream.statusCode upstream',
                                      response_info.durationMs = durationMs',
                                      response_info.headers = upstream.headers upstream',
                                      response_info.body = Some (upstream.body upstream'),
                                      response_info.replayOf = Some i \<rparr> of
                               None \<Rightarrow> None
                             | Some (Inl e, st) \<Rightarrow> Some (Rejected e, sv1\<lparr> captureStore := st \<rparr>)
                             | Some (Inr record', st) \<Rightarrow>
                                 Some (Sent \<lparr> code = 200, reply.headers = [],
                                              payload = ItemObject record' \<rparr>,
                                       sv1\<lparr> captureStore := st \<rparr>)))))"

definition error_message :: "runtime \<Rightarrow> error \<Rightarrow> string" where
  "error_message rt e = (case e of Error m \<Rightarrow> m | other \<Rightarrow> message rt other)"

definition proxy_handler :: "runtime \<Rightarrow> env \<Rightarrow> request \<Rightarrow> server \<Rightarrow> (outcome \<times> server) option" where
  "proxy_handler rt ev req sv =
     (case buildReplaySourceFromRequest rt (randomUUID ev 0) req of
        Inl e \<Rightarrow>
          Some (Sent \<lparr> code = 400, reply.headers = [], payload = ErrorObject (error_message rt e) \<rparr>, sv)
      | Inr replay \<Rightarrow>
          let started = Date_now ev 0;
              sv1 = sv\<lparr> upstream_calls := upstream_calls sv @ [fetch_call rt replay] \<rparr>;
              failed = Sent \<lparr> code = 502, reply.headers = [],
                              payload = ErrorObject ''Failed to reach target API'' \<rparr>
          in (case proxyToTarget rt (fetchImpl ev) replay of
                Inl e \<Rightarrow> Some (failed, sv1)
              | Inr upstream' \<Rightarrow>
                  let durationMs' = Date_now ev 1 - started
                  in (case withCapture rt (randomUUID ev 1) (Date_toISOString ev)
                             (captureStore sv1) replay
                             \<lparr> response_info.statusCode = upstream.statusCode upstream',
                               response_info.durationMs = durationMs',
                               response_info.headers = upstream.headers upstream',
                               response_info.body = Some (upstream.body upstream'),
                               response_info.replayOf = None \<rparr> of
                        None \<Rightarrow> None
                      | Some (Inl e, st) \<Rightarrow> Some (failed, sv1\<lparr> captureStore := st \<rparr>)
                      | Some (Inr record', st) \<Rightarrow>
                          Some (Sent \<lparr> code = upstream.statusCode upstream',
                                       reply.headers =
                                         filter (\<lambda>(key, value'). toLowerCase rt key \<notin> set hopByHopHeaders)
                                           (upstream.headers upstream'),
                                       payload = Text (upstream.body upstream') \<rparr>,
                                sv1\<lparr> captureStore := st \<rparr>))))"


section \<open>Notions of the proofs\<close>

subsection \<open>The store\<close>

text \<open>
  \<open>evict e m\<close> is the index after the iteration of \<open>prune\<close> that removes \<open>e\<close>, when that
  iteration does not throw; \<open>evictable e\<close> says that it does not; \<open>pruned s\<close> is the state
  that \<open>prune\<close> leaves when every removed element is evictable.  \<open>unshift r p s\<close> is the
  state of \<open>add\<close> before it calls \<open>prune\<close>, and \<open>stored\<close> builds the array element of a pair.
  \<open>indexable e\<close> says that \<open>e.record.id\<close> is a string, \<open>skey e\<close> is that string, and
  \<open>index cs\<close> maps the id of every element of \<open>cs\<close> to the element.
\<close>

definition evict :: "entry \<Rightarrow> (string \<rightharpoonup> entry) \<Rightarrow> (string \<rightharpoonup> entry)" where
  "evict e m = (if truthy e then (case entry_record_id e of Inl x \<Rightarrow> m | Inr k \<Rightarrow> Map_delete m k) else m)"

definition evictable :: "entry \<Rightarrow> bool" where
  "evictable e = (truthy e \<longrightarrow> (\<exists>k. entry_record_id e = Inr k))"

definition pruned :: "store \<Rightarrow> store" where
  "pruned s = s\<lparr> captures := take (nat (maxCaptures s)) (captures s),
                 byId := foldr evict (drop (nat (maxCaptures s)) (captures s)) (byId s) \<rparr>"

definition stored :: "CaptureRecord \<times> ReplaySource \<Rightarrow> entry" where
  "stored x = StoredCapture (fst x) (snd x)"

definition skey :: "entry \<Rightarrow> string" where
  "skey e = (case entry_record_id e of Inr (Some (JString i)) \<Rightarrow> i | _ \<Rightarrow> [])"

definition indexable :: "entry \<Rightarrow> bool" where
  "indexable e = (truthy e \<and> (\<exists>i. entry_record_id e = Inr (Some (JString i))))"

definition index :: "entry list \<Rightarrow> (string \<rightharpoonup> entry)" where
  "index cs = map_of (map (\<lambda>e. (skey e, e)) cs)"

definition unshift :: "CaptureRecord \<Rightarrow> ReplaySource \<Rightarrow> store \<Rightarrow> store" where
  "unshift r p s = s\<lparr> captures := StoredCapture r p # captures s,
                       byId := (byId s)(CaptureRecord.id' r \<mapsto> StoredCapture r p) \<rparr>"

subsection \<open>Fixtures of the store test (captureStore.test.ts)\<close>

definition makeCapture :: "string \<Rightarrow> CaptureRecord" where
  \<open>makeCapture i =
     \<lparr> CaptureRecord.id' = i,
       createdAt = ''2026-02-01T00:00:00.000Z'',
       CaptureRecord.replayOf = None,
       CaptureRecord.method' = ''POST'',
       CaptureRecord.targetUrl = ''https://api.example.com/v1/messages'',
       CaptureRecord.path = ''/v1/messages'',
       CaptureRecord.statusCode = 200,
       CaptureRecord.durationMs = 12,
       request = \<lparr> CapturePayload.headers = [(''content-type'', ''application/json'')],
                   CapturePayload.body = Some ''{"ok":true}'', size' = 11 \<rparr>,
       response = \<lparr> CapturePayload.headers = [(''content-type'', ''application/json'')],
                    CapturePayload.body = Some ''{"done":true}'', size' = 13 \<rparr> \<rparr>\<close>

definition makeReplay :: ReplaySource where
  \<open>makeReplay =
     \<lparr> ReplaySource.id' = ''source-1'',
       ReplaySource.method' = ''POST'',
       ReplaySource.targetUrl = ''https://api.example.com/v1/messages'',
       ReplaySource.path = ''/v1/messages'',
       ReplaySource.headers = [(''content-type'', ''application/json'')],
       ReplaySource.body = Some ''{"ok":true}'' \<rparr>\<close>

subsection \<open>Header redaction\<close>

text \<open>
  \<open>redact_step\<close> is the body of the loop of \<open>redactHeaders\<close>.  \<open>sensitive_header\<close> spells
  out the names of the specification: authorization, cookie, token, api-key or apikey
  (and \<open>api_key\<close>, which the pattern \<open>api[-_]?key\<close> also matches), secret.
\<close>

definition redact_step :: "(string \<times> string) list \<Rightarrow> string \<times> string option \<Rightarrow> (string \<times> string) list" where
  "redact_step result kv =
     (case snd kv of
        None \<Rightarrow> result
      | Some v \<Rightarrow>
          if length v = 0 then result
          else assign result (fst kv)
                 (if list_ex (\<lambda>pat. test pat (fst kv)) sensitiveHeaderPatterns
                  then REDACTION_TOKEN else v))"

definition example_headers :: "(string \<times> string option) list" where
  "example_headers =
     [(''authorization'', Some ''Bearer very-secret-token''),
      (''content-type'', Some ''application/json''),
      (''X-Api-Key'', Some ''k1''),
      (''x-empty'', Some []),
      (''x-undefined'', None)]"

text \<open>The header map \<open>{"__proto__": "x", "a": "b"}\<close>, with \<open>__proto__\<close> an own property.\<close>

definition proto_headers :: "(string \<times> string option) list" where
  "proto_headers = [(''__proto__'', Some ''x''), (''a'', Some ''b'')]"

definition sensitive_header :: "string \<Rightarrow> bool" where
  "sensitive_header name =
     (includes' (lower_ascii name) ''authorization'' \<or> includes' (lower_ascii name) ''cookie''
      \<or> includes' (lower_ascii name) ''token'' \<or> includes' (lower_ascii name) ''apikey''
      \<or> includes' (lower_ascii name) ''api-key'' \<or> includes' (lower_ascii name) ''api_key''
      \<or> includes' (lower_ascii name) ''secret'')"

subsection \<open>Body redaction\<close>

text \<open>
  The rule of the specification for a parsed JSON body: the value of a field whose key
  is sensitive becomes the token, whatever it is, and nothing below it is visited;
  every other field is kept and its value is treated in the same way; an array is
  treated element by element; every other value is kept.
\<close>

definition sensitive_field :: "string \<Rightarrow> bool" where
  "sensitive_field name =
     (includes' (lower_ascii name) ''token'' \<or> includes' (lower_ascii name) ''secret''
      \<or> includes' (lower_ascii name) ''password'' \<or> includes' (lower_ascii name) ''authorization''
      \<or> includes' (lower_ascii name) ''apikey'' \<or> includes' (lower_ascii name) ''api-key''
      \<or> includes' (lower_ascii name) ''api_key'' \<or> includes' (lower_ascii name) ''session''
      \<or> includes' (lower_ascii name) ''cookie'')"

fun redact_spec :: "json \<Rightarrow> json" where
  "redact_spec (JArray items) = JArray (map redact_spec items)"
| "redact_spec (JObject entries) =
     JObject (map (\<lambda>kv. (fst kv, if sensitive_field (fst kv) then JString REDACTION_TOKEN
                                 else redact_spec (snd kv))) entries)"
| "redact_spec v = v"

text \<open>
  \<open>plain v\<close>: in every object of \<open>v\<close> that does not stand under a sensitive key, the keys
  are pairwise different (as the keys of an object are) and none of them is
  \<open>__proto__\<close>.
\<close>

fun plain :: "json \<Rightarrow> bool" where
  "plain (JArray items) = (\<forall>item \<in> set items. plain item)"
| "plain (JObject entries) =
     (distinct (map fst entries) \<and> ''__proto__'' \<notin> fst ` set entries
      \<and> (\<forall>kv \<in> set entries. sensitive_field (fst kv) \<or> plain (snd kv)))"
| "plain v = True"

text \<open>A JSON document with a field named \<open>__proto__\<close>.\<close>

definition proto_body :: string where
  \<open>proto_body = ''{"__proto__":{"a":"v"},"x":"y"}''\<close>

subsection \<open>Target resolution\<close>

text \<open>
  \<open>wildcard\<close> is the sub-path \<open>request.params["*"] ?? ""\<close>.  \<open>forward_query\<close> appends
  the query parameters of the request other than \<open>target\<close> to a URL.  \<open>resolved\<close> is
  the target URL after the two updates of \<open>buildReplaySourceFromRequest\<close>: the assignment
  of the joined path to \<open>pathname\<close>, then the forwarded query.  Its \<open>toString\<close> is the
  \<open>targetUrl\<close> of the request and its \<open>pathname\<close> the path of the resolved target URL.
\<close>

definition wildcard :: "request \<Rightarrow> string" where
  "wildcard req = (case map_of (params req) ''*'' of None \<Rightarrow> [] | Some p \<Rightarrow> p)"

definition forward_query :: "url \<Rightarrow> url \<Rightarrow> url" where
  "forward_query requestQuery u =
     u\<lparr> searchParams :=
          searchParams u @ filter (\<lambda>kv. fst kv \<noteq> ''target'') (searchParams requestQuery) \<rparr>"

definition resolved :: "runtime \<Rightarrow> url \<Rightarrow> string \<Rightarrow> url \<Rightarrow> url" where
  "resolved rt base sub requestQuery =
     forward_query requestQuery (URL_set_pathname rt base (joinPath (pathname base) sub))"

subsection \<open>A runtime for the examples\<close>

text \<open>
  \<open>example_runtime\<close> knows the documents and URLs of the examples below and nothing
  else.  It is used to show that the hypotheses of the theorems can be met.  Its
  \<open>toUpperCase\<close> and \<open>toLowerCase\<close> are those of JavaScript on ASCII strings, and its
  setter of \<open>pathname\<close> is that of JavaScript on paths that need no percent-encoding:
  it resolves the dot segments, as the URL parser does in its path state, and keeps
  empty segments.
\<close>

fun segments :: "string \<Rightarrow> string list" where
  "segments [] = [[]]"
| "segments (c # cs) =
     (if c = CHR ''/'' then [] # segments cs
      else (case segments cs of
              [] \<Rightarrow> [[c]]
            | seg # rest \<Rightarrow> (c # seg) # rest))"

fun path_state :: "string list \<Rightarrow> string list \<Rightarrow> string list" where
  "path_state segs [] = segs"
| "path_state segs (seg # rest) =
     (if seg = ''..'' then path_state (butlast segs @ (if rest = [] then [[]] else [])) rest
      else if seg = ''.'' then path_state (segs @ (if rest = [] then [[]] else [])) rest
      else path_state (segs @ [seg]) rest)"

definition set_pathname :: "url \<Rightarrow> string \<Rightarrow> url" where
  "set_pathname u p =
     u\<lparr> pathname :=
          concat (map (\<lambda>seg. ''/'' @ seg)
            (path_state [] (segments (if p \<noteq> [] \<and> hd p = CHR ''/'' then tl p else p)))) \<rparr>"

definition example_runtime :: runtime where
  \<open>example_runtime =
     \<lparr> JSON_parse = (\<lambda>s.
         if s = ''{"prompt":"hello","apiKey":"sk-live-key"}'' then
           Inr (JObject [(''prompt'', JString ''hello''), (''apiKey'', JString ''sk-live-key'')])
         else if s = ''{"user":{"name":"n","password":"p"},"secret":{"a":1},"items":[{"token":"t"}]}'' then
           Inr (JObject [(''user'', JObject [(''name'', JString ''n''), (''password'', JString ''p'')]),
                         (''secret'', JObject [(''a'', JNumber 1)]),
                         (''items'', JArray [JObject [(''token'', JString ''t'')]])])
         else if s = ''{"version":1,"captures":[null]}'' then
           Inr (JObject [(''version'', JNumber 1), (''captures'', JArray [JNull])])
         else if s = ''{"version":1,"captures":[{"record":{"id":"c"}},{"record":{"id":"b"}},{"record":{"id":"a"}}]}'' then
           Inr (JObject [(''version'', JNumber 1),
                         (''captures'', JArray [JObject [(''record'', JObject [(''id'', JString ''c'')])],
                                               JObject [(''record'', JObject [(''id'', JString ''b'')])],
                                               JObject [(''record'', JObject [(''id'', JString ''a'')])]])])
         else if s = proto_body then
           Inr (JObject [(''__proto__'', JObject [(''a'', JString ''v'')]), (''x'', JString ''y'')])
         else Inl SyntaxError),
       JSON_stringify = (\<lambda>v indent.
         if v = JObject [(''x'', JString ''y'')] \<and> indent = 2 then
           ''{'' @ [CHR 0x0A] @ ''  "x": "y"'' @ [CHR 0x0A] @ ''}''
         else ''{}''),
       String_replace = (\<lambda>s r t. s),
       toUpperCase = upper_ascii,
       toLowerCase = lower_ascii,
       URL_parse = (\<lambda>s base.
         if s = ''/proxy/v1/messages?target=https%3A%2F%2Fapi.example.com&beta=1''
            \<and> base = Some ''http://localhost'' then
           Inr \<lparr> origin = ''http://localhost'', pathname = ''/proxy/v1/messages'',
                 searchParams = [(''target'', ''https://api.example.com''), (''beta'', ''1'')],
                 hash = [] \<rparr>
         else if s = ''/proxy/v1/messages'' \<and> base = Some ''http://localhost'' then
           Inr \<lparr> origin = ''http://localhost'', pathname = ''/proxy/v1/messages'',
                 searchParams = [], hash = [] \<rparr>
         else if s = ''/proxy/v1'' \<and> base = Some ''http://localhost'' then
           Inr \<lparr> origin = ''http://localhost'', pathname = ''/proxy/v1'',
                 searchParams = [], hash = [] \<rparr>
         else if s = ''/proxy/../admin'' \<and> base = Some ''http://localhost'' then
           Inr \<lparr> origin = ''http://localhost'', pathname = ''/admin'',
                 searchParams = [], hash = [] \<rparr>
         else if s = ''https://api.example.com'' \<and> base = None then
           Inr \<lparr> origin = ''https://api.example.com'', pathname = ''/'', searchParams = [],
                 hash = [] \<rparr>
         else if s = ''https://header.example.com/api/'' \<and> base = None then
           Inr \<lparr> origin = ''https://header.example.com'', pathname = ''/api/'',
                 searchParams = [], hash = [] \<rparr>
         else if s = ''https://api.example.com/api//'' \<and> base = None then
           Inr \<lparr> origin = ''https://api.example.com'', pathname = ''/api//'',
                 searchParams = [], hash = [] \<rparr>
         else if s = ''https://api.example.com/api/v1'' \<and> base = None then
           Inr \<lparr> origin = ''https://api.example.com'', pathname = ''/api/v1'',
                 searchParams = [], hash = [] \<rparr>
         else Inl TypeError),
       URL_set_pathname = set_pathname,
       URL_toString = (\<lambda>u. origin u @ pathname u
         @ (if searchParams u = [] then []
            else ''?'' @ join (map (\<lambda>kv. fst kv @ ''='' @ snd kv) (searchParams u)) ''&'')
         @ hash u),
       message = (\<lambda>e. ''Invalid URL'') \<rparr>\<close>

subsection \<open>Fixtures of the server test (proxyCapture.test.ts)\<close>

definition example_fetch :: FetchImpl where
  \<open>example_fetch url'' init =
     Inr \<lparr> status = 200,
           Response.headers = [(''content-type'', ''application/json''), (''x-upstream'', ''mock'')],
           text' = Inr ''{"ok":true}'' \<rparr>\<close>

definition example_env :: env where
  "example_env =
     \<lparr> fetchImpl = example_fetch,
       randomUUID = (\<lambda>n. if n = 0 then ''uuid-0'' else ''uuid-1''),
       Date_now = (\<lambda>n. if n = 0 then 1000 else 1024),
       Date_toISOString = ''2026-02-01T15:00:00.000Z'' \<rparr>"

definition unreachable_env :: env where
  "unreachable_env = example_env\<lparr> fetchImpl := (\<lambda>url'' init. Inl FetchFailed) \<rparr>"

definition example_request :: request where
  "example_request =
     \<lparr> request.method' = ''POST'',
       params = [(''*'', ''v1/messages'')],
       url' = ''/proxy/v1/messages?target=https%3A%2F%2Fapi.example.com&beta=1'',
       request.headers =
         [(''authorization'', Some (HString ''Bearer very-secret-token'')),
          (''content-type'', Some (HString ''application/json'')),
          (''host'', Some (HString ''localhost:8787''))],
       request.body = Value (JObject [(''prompt'', JString ''hello''),
                                      (''apiKey'', JString ''sk-live-key'')]) \<rparr>"


text \<open>
  The request of the test with an \<open>x-proxylab-target\<close> header beside its \<open>target\<close> query
  parameter; a request whose target path ends in two slashes; a request whose sub-path
  begins with a dot segment.
\<close>

definition header_request :: request where
  "header_request =
     example_request\<lparr> request.headers :=
       (''x-proxylab-target'', Some (HString ''https://header.example.com/api/''))
         # request.headers example_request \<rparr>"

definition double_slash_request :: request where
  "double_slash_request =
     \<lparr> request.method' = ''GET'',
       params = [(''*'', ''v1'')],
       url' = ''/proxy/v1'',
       request.headers = [(''x-proxylab-target'', Some (HString ''https://api.example.com/api//''))],
       request.body = NoBody \<rparr>"

definition dot_segment_request :: request where
  "dot_segment_request =
     \<lparr> request.method' = ''GET'',
       params = [(''*'', ''../admin'')],
       url' = ''/proxy/../admin'',
       request.headers = [(''x-proxylab-target'', Some (HString ''https://api.example.com/api/v1''))],
       request.body = NoBody \<rparr>"

definition example_upstream :: upstream where
  \<open>example_upstream =
     \<lparr> upstream.statusCode = 200,
       upstream.headers = [(''content-type'', ''application/json''), (''x-upstream'', ''mock'')],
       upstream.body = ''{"ok":true}'' \<rparr>\<close>

definition example_overrides :: overrides where
  "example_overrides =
     \<lparr> overrides.method' = Some ''put'',
       overrides.targetUrl = None,
       overrides.headers = Some [(''x-extra'', ''1'')],
       overrides.body = Null \<rparr>"

text \<open>The store after \<open>add(makeCapture("one"), makeReplay())\<close> on a new store.\<close>

definition one_capture :: "int option \<Rightarrow> store" where
  "one_capture mc = pruned (unshift (makeCapture ''one'') makeReplay (InMemoryCaptureStore mc))"


section \<open>The capture store: what \<open>prune\<close> and \<open>add\<close> compute\<close>

lemma foldr_snoc_last: "ds \<noteq> [] \<Longrightarrow> foldr f ds a = foldr f (butlast ds) (f (last ds) a)"
  by (induction ds) auto

lemma prune_stop: "\<not> int (length (captures s)) > maxCaptures s \<Longrightarrow> prune s = Some (Inr (), s)"
  by (subst prune.simps) simp

lemma prune_step:
  assumes "int (length (captures s)) > maxCaptures s" "captures s \<noteq> []"
    "evictable (last (captures s))"
  shows "prune s = prune (s\<lparr> captures := butlast (captures s), byId := evict (last (captures s)) (byId s) \<rparr>)"
  using assms
  by (subst prune.simps) (auto simp: evict_def evictable_def Let_def split: list.splits sum.splits)

lemma prune_closed:
  assumes "0 \<le> maxCaptures s" "\<forall>e \<in> set (drop (nat (maxCaptures s)) (captures s)). evictable e"
  shows "prune s = Some (Inr (), pruned s)"
  using assms
proof (induction "length (captures s) - nat (maxCaptures s)" arbitrary: s)
  case 0
  then have le: "length (captures s) \<le> nat (maxCaptures s)" by simp
  then have "prune s = Some (Inr (), s)" using "0.prems"(1) by (intro prune_stop) linarith
  moreover have "pruned s = s" using le by (simp add: pruned_def)
  ultimately show ?case by simp
next
  case (Suc n)
  let ?N = "nat (maxCaptures s)"
  let ?cs = "captures s"
  from Suc.hyps(2) have gt: "length ?cs > ?N" by simp
  then have ne: "?cs \<noteq> []" by auto
  have lastdrop: "last ?cs = last (drop ?N ?cs)" using gt by simp
  have "last (drop ?N ?cs) \<in> set (drop ?N ?cs)" using gt by (intro last_in_set) simp
  then have ev: "evictable (last ?cs)" using Suc.prems(2) lastdrop by simp
  let ?s' = "s\<lparr> captures := butlast ?cs, byId := evict (last ?cs) (byId s) \<rparr>"
  have step: "prune s = prune ?s'"
    using gt Suc.prems(1) ne ev by (intro prune_step) auto
  have n: "n = length (captures ?s') - nat (maxCaptures ?s')" using Suc.hyps(2) by simp
  have dropb: "drop ?N (butlast ?cs) = butlast (drop ?N ?cs)" by (simp add: butlast_drop)
  have "\<forall>e \<in> set (drop (nat (maxCaptures ?s')) (captures ?s')). evictable e"
    using Suc.prems(2) dropb by (auto dest: in_set_butlastD)
  with Suc.hyps(1)[OF n] Suc.prems(1) have "prune ?s' = Some (Inr (), pruned ?s')" by simp
  moreover have "pruned ?s' = pruned s"
  proof -
    have t: "take ?N (butlast ?cs) = take ?N ?cs" using gt by (simp add: take_butlast)
    have dne: "drop ?N ?cs \<noteq> []" using gt by simp
    have "foldr evict (drop ?N ?cs) (byId s) = foldr evict (butlast (drop ?N ?cs)) (evict (last ?cs) (byId s))"
      using foldr_snoc_last[OF dne] lastdrop by simp
    then show ?thesis using t dropb by (simp add: pruned_def)
  qed
  ultimately show ?case using step by simp
qed

lemma indexable_evictable: "indexable e \<Longrightarrow> evictable e"
  by (auto simp: indexable_def evictable_def)

lemma stored_indexable [simp]: "indexable (stored x)" "indexable (StoredCapture r p)"
  by (simp_all add: indexable_def stored_def)

lemma stored_evictable [simp]: "evictable (stored x)" "evictable (StoredCapture r p)"
  by (simp_all add: indexable_evictable)

lemma stored_skey [simp]: "skey (stored x) = CaptureRecord.id' (fst x)" "skey (StoredCapture r p) = CaptureRecord.id' r"
  by (simp_all add: skey_def stored_def)

lemma add_unshift:
  "add r p s = (case prune (unshift r p s) of None \<Rightarrow> None
     | Some (Inl e, s3) \<Rightarrow> Some (Inl e, s3) | Some (Inr u, s3) \<Rightarrow> Some (Inr r, s3))"
  by (simp add: add_def unshift_def Let_def)

lemma add_closed:
  assumes "0 \<le> maxCaptures s" "\<forall>e \<in> set (captures s). evictable e"
  shows "add r p s = Some (Inr r, pruned (unshift r p s))"
proof -
  have "\<forall>e \<in> set (captures (unshift r p s)). evictable e"
    using assms(2) by (auto simp: unshift_def intro: indexable_evictable)
  then have "\<forall>e \<in> set (drop (nat (maxCaptures (unshift r p s))) (captures (unshift r p s))). evictable e"
    by (auto dest: in_set_dropD)
  moreover have "0 \<le> maxCaptures (unshift r p s)" using assms(1) by (simp add: unshift_def)
  ultimately have "prune (unshift r p s) = Some (Inr (), pruned (unshift r p s))"
    by (rule prune_closed[rotated])
  then show ?thesis by (simp add: add_unshift)
qed

lemma captures_pruned_unshift:
  "captures (pruned (unshift r p s)) = take (nat (maxCaptures s)) (StoredCapture r p # captures s)"
  by (simp add: pruned_def unshift_def)

lemma maxCaptures_pruned_unshift [simp]: "maxCaptures (pruned (unshift r p s)) = maxCaptures s"
  by (simp add: pruned_def unshift_def)

lemma take_append_take: "take n (xs @ take n ys) = take n (xs @ ys)"
  by (simp add: min_def)

lemma add_all_closed:
  assumes "0 \<le> maxCaptures s" "\<forall>e \<in> set (captures s). evictable e"
    "length (captures s) \<le> nat (maxCaptures s)"
  shows "\<exists>s'. add_all xs s = Some (Inr (), s') \<and> maxCaptures s' = maxCaptures s
           \<and> captures s' = take (nat (maxCaptures s)) (rev (map stored xs) @ captures s)"
  using assms
proof (induction xs arbitrary: s)
  case Nil
  then show ?case by simp
next
  case (Cons x xs)
  let ?s1 = "pruned (unshift (fst x) (snd x) s)"
  have a: "add (fst x) (snd x) s = Some (Inr (fst x), ?s1)"
    using Cons.prems(1,2) by (rule add_closed)
  have c1: "captures ?s1 = take (nat (maxCaptures s)) (stored x # captures s)"
    by (simp add: captures_pruned_unshift stored_def)
  have ev: "\<forall>e \<in> set (captures ?s1). evictable e"
    using Cons.prems(2) unfolding c1 by (auto dest!: in_set_takeD)
  have m: "0 \<le> maxCaptures ?s1" using Cons.prems(1) by simp
  have len: "length (captures ?s1) \<le> nat (maxCaptures ?s1)" unfolding c1 by simp
  from Cons.IH[OF m ev len] obtain s' where
    s': "add_all xs ?s1 = Some (Inr (), s')" "maxCaptures s' = maxCaptures s"
        "captures s' = take (nat (maxCaptures s)) (rev (map stored xs) @ captures ?s1)"
    by auto
  have "captures s' = take (nat (maxCaptures s)) (rev (map stored (x # xs)) @ captures s)"
    unfolding s'(3) c1 take_append_take by simp
  moreover have "add_all (x # xs) s = Some (Inr (), s')" using a s'(1) by simp
  ultimately show ?case using s'(2) by simp
qed

text \<open>
  With a negative \<open>maxCaptures\<close> the loop of \<open>prune\<close> has no exit, and \<open>add\<close> on a new
  store never returns.  The properties of \<open>add\<close> below are stated for \<open>0 \<le> maxCaptures\<close>.
\<close>

lemma prune_Some_bound:
  assumes "prune s = Some y"
  shows "\<not> (maxCaptures s < 0 \<and> (\<forall>e \<in> set (captures s). evictable e))"
proof (rule prune.raw_induct[where P = "\<lambda>s y. \<not> (maxCaptures s < 0 \<and> (\<forall>e \<in> set (captures s). evictable e))",
      OF _ assms])
  fix prune' :: "store \<Rightarrow> ((error + unit) \<times> store) option" and s y
  assume IH: "\<And>x y. prune' x = Some y
      \<Longrightarrow> \<not> (maxCaptures x < 0 \<and> (\<forall>e \<in> set (captures x). evictable e))"
  assume hyps: "(if maxCaptures s < int (length (captures s))
      then case captures s of [] \<Rightarrow> prune' s
           | c # cs \<Rightarrow>
               let removed = last (captures s);
                   s1 = s\<lparr>captures := butlast (captures s)\<rparr>
               in if truthy removed
                  then case entry_record_id removed of
                       Inl e \<Rightarrow> Some (Inl e, s1)
                       | Inr k \<Rightarrow> prune' (s1\<lparr>byId := Map_delete (byId s1) k\<rparr>)
                  else prune' s1
      else Some (Inr (), s)) = Some y"
  show "\<not> (maxCaptures s < 0 \<and> (\<forall>e \<in> set (captures s). evictable e))"
  proof
    assume a: "maxCaptures s < 0 \<and> (\<forall>e \<in> set (captures s). evictable e)"
    then have gt: "int (length (captures s)) > maxCaptures s" by linarith
    show False
    proof (cases "captures s")
      case Nil
      then have "prune' s = Some y" using hyps gt by simp
      from IH[OF this] a show False by simp
    next
      case (Cons c cs)
      let ?s1 = "s\<lparr> captures := butlast (captures s) \<rparr>"
      have ne: "captures s \<noteq> []" using Cons by simp
      have ev: "evictable (last (captures s))" using a ne by simp
      have sub: "\<forall>e \<in> set (butlast (captures s)). evictable e"
        using a by (auto dest: in_set_butlastD)
      show False
      proof (cases "truthy (last (captures s))")
        case True
        with ev obtain k where k: "entry_record_id (last (captures s)) = Inr k"
          by (auto simp: evictable_def)
        have "prune' (?s1\<lparr> byId := Map_delete (byId ?s1) k \<rparr>) = Some y"
          using hyps gt Cons True k by (simp add: Let_def)
        from IH[OF this] a sub show False by simp
      next
        case False
        have "prune' ?s1 = Some y"
          using hyps gt Cons False by (simp add: Let_def)
        from IH[OF this] a sub show False by simp
      qed
    qed
  qed
qed

lemma prune_negative_never_returns:
  "maxCaptures s < 0 \<Longrightarrow> \<forall>e \<in> set (captures s). evictable e \<Longrightarrow> prune s = None"
  using prune_Some_bound[of s] by (cases "prune s") auto

lemma add_negative_never_returns:
  assumes "(case mc of None \<Rightarrow> 500 | Some n \<Rightarrow> n) < 0"
  shows "add r p (InMemoryCaptureStore mc) = None"
proof -
  have "prune (unshift r p (InMemoryCaptureStore mc)) = None"
    using assms
    by (intro prune_negative_never_returns) (simp_all add: unshift_def InMemoryCaptureStore_def)
  then show ?thesis by (simp add: add_unshift)
qed

section \<open>The bound of the store and the order of \<open>list()\<close>\<close>

lemma map_records_stored: "map_records (map stored ys) = Inr (map (Record \<circ> fst) ys)"
  by (induction ys) (simp_all add: stored_def)

lemma new_store [simp]:
  "captures (InMemoryCaptureStore mc) = []" "byId (InMemoryCaptureStore mc) = Map.empty"
  "maxCaptures (InMemoryCaptureStore mc) = (case mc of None \<Rightarrow> 500 | Some n \<Rightarrow> n)"
  by (simp_all add: InMemoryCaptureStore_def)

lemma add_all_new_store:
  assumes "N = (case mc of None \<Rightarrow> 500 | Some n \<Rightarrow> n)" "0 \<le> N"
  shows "\<exists>s. add_all xs (InMemoryCaptureStore mc) = Some (Inr (), s) \<and> maxCaptures s = N
           \<and> captures s = map stored (take (nat N) (rev xs))"
proof -
  have "\<exists>s'. add_all xs (InMemoryCaptureStore mc) = Some (Inr (), s')
          \<and> maxCaptures s' = maxCaptures (InMemoryCaptureStore mc)
          \<and> captures s' = take (nat (maxCaptures (InMemoryCaptureStore mc)))
                (rev (map stored xs) @ captures (InMemoryCaptureStore mc))"
    using assms by (intro add_all_closed) simp_all
  then show ?thesis using assms(1) by (simp add: rev_map take_map)
qed

text \<open>
  Claim C1.  A store built with maximum \<open>N\<close> (500 when the constructor gets no argument),
  \<open>0 \<le> N\<close>, then sent any sequence \<open>xs\<close> of \<open>add\<close> calls: every call returns, and
  afterwards \<open>list()\<close> returns at most \<open>N\<close> records, namely the first \<open>N\<close> of the added
  records read from the newest to the oldest.  When more than \<open>N\<close> records were added
  these are exactly the last \<open>N\<close> added, newest first.  One more \<open>add\<close> puts the new
  pair in front and keeps the first \<open>N\<close> elements of the array.
\<close>

theorem add_keeps_newest:
  assumes "N = (case mc of None \<Rightarrow> 500 | Some n \<Rightarrow> n)" "0 \<le> N"
  shows "\<exists>s rs. add_all xs (InMemoryCaptureStore mc) = Some (Inr (), s)
           \<and> list' s = Inr rs
           \<and> int (length rs) \<le> N
           \<and> rs = map Record (take (nat N) (rev (map fst xs)))
           \<and> (N < int (length xs) \<longrightarrow>
                 int (length rs) = N
               \<and> rs = map Record (rev (drop (length xs - nat N) (map fst xs))))
           \<and> (\<forall>r p. \<exists>s'. add r p s = Some (Inr r, s')
                 \<and> captures s' = take (nat N) (StoredCapture r p # captures s))"
proof -
  from add_all_new_store[OF assms] obtain s where
    s: "add_all xs (InMemoryCaptureStore mc) = Some (Inr (), s)" "maxCaptures s = N"
       "captures s = map stored (take (nat N) (rev xs))"
    by blast
  let ?rs = "map Record (take (nat N) (rev (map fst xs)))"
  have l: "list' s = Inr ?rs"
    by (simp add: list'_def s(3) map_records_stored rev_map take_map)
  have len: "int (length ?rs) \<le> N" using assms(2) by simp
  have full: "N < int (length xs) \<longrightarrow> int (length ?rs) = N
       \<and> ?rs = map Record (rev (drop (length xs - nat N) (map fst xs)))"
    using assms(2) by (auto simp: take_rev)
  have ev: "\<forall>e \<in> set (captures s). evictable e" by (auto simp: s(3))
  have step: "\<exists>s'. add r p s = Some (Inr r, s')
       \<and> captures s' = take (nat N) (StoredCapture r p # captures s)" for r p
    using add_closed[of s r p] ev assms(2) s(2) by (simp add: captures_pruned_unshift)
  show ?thesis using s(1) l len full step by blast
qed

theorem add_keeps_newest_witness:
  "(2::int) = (case Some 2 of None \<Rightarrow> 500 | Some n \<Rightarrow> n) \<and> (0::int) \<le> 2
   \<and> (\<exists>s. add_all [(makeCapture ''one'', makeReplay), (makeCapture ''two'', makeReplay),
                     (makeCapture ''three'', makeReplay)] (InMemoryCaptureStore (Some 2))
           = Some (Inr (), s)
         \<and> list' s = Inr [Record (makeCapture ''three''), Record (makeCapture ''two'')])"
  using add_keeps_newest[of 2 "Some 2"
      "[(makeCapture ''one'', makeReplay), (makeCapture ''two'', makeReplay),
        (makeCapture ''three'', makeReplay)]"]
  by auto

section \<open>The index follows the array\<close>

lemma evict_indexable: "indexable e \<Longrightarrow> evict e m = m(skey e := None)"
  by (auto simp: evict_def indexable_def skey_def)

lemma restrict_map_upd_None: "(m |` A)(k := None) = m |` (A - {k})"
  by (rule ext) (simp add: restrict_map_def)

lemma foldr_evict:
  "\<forall>e \<in> set ds. indexable e \<Longrightarrow> foldr evict ds m = m |` (- skey ` set ds)"
proof (induction ds)
  case Nil
  then show ?case by simp
next
  case (Cons d ds)
  then have "foldr evict (d # ds) m = (m |` (- skey ` set ds))(skey d := None)"
    by (simp add: evict_indexable)
  also have "\<dots> = m |` (- skey ` set ds - {skey d})" by (rule restrict_map_upd_None)
  also have "- skey ` set ds - {skey d} = - skey ` set (d # ds)" by auto
  finally show ?case .
qed

lemma index_Cons: "index (e # cs) = (index cs)(skey e \<mapsto> e)"
  by (simp add: index_def)

lemma index_None: "(index cs k = None) = (k \<notin> skey ` set cs)"
  by (simp add: index_def map_of_eq_None_iff image_image)

lemma index_append_restrict:
  assumes "skey ` set pre \<inter> skey ` set ds = {}"
  shows "index (pre @ ds) |` (- skey ` set ds) = index pre"
proof (rule ext)
  fix k
  show "(index (pre @ ds) |` (- skey ` set ds)) k = index pre k"
  proof (cases "k \<in> skey ` set ds")
    case True
    then have "k \<notin> skey ` set pre" using assms by auto
    then have "index pre k = None" by (simp add: index_None)
    then show ?thesis using True by (simp add: restrict_map_def)
  next
    case False
    then have "map_of (map (\<lambda>e. (skey e, e)) ds) k = None"
      by (simp add: map_of_eq_None_iff image_image)
    then show ?thesis using False
      by (simp add: restrict_map_def index_def map_add_def split: option.splits)
  qed
qed

lemma byId_pruned_unshift:
  assumes "\<forall>e \<in> set (captures s). indexable e" "byId s = index (captures s)"
    "distinct (map skey (captures s))" "CaptureRecord.id' r \<notin> skey ` set (captures s)"
  shows "byId (pruned (unshift r p s)) = index (captures (pruned (unshift r p s)))"
proof -
  let ?e = "StoredCapture r p"
  let ?cs = "?e # captures s"
  let ?N = "nat (maxCaptures s)"
  have d: "distinct (map skey ?cs)" using assms(3,4) by auto
  have "distinct (map skey (take ?N ?cs @ drop ?N ?cs))" using d by (simp only: append_take_drop_id)
  then have disj: "skey ` set (take ?N ?cs) \<inter> skey ` set (drop ?N ?cs) = {}"
    by (simp only: map_append distinct_append set_map) 
  have ix: "\<forall>e \<in> set (drop ?N ?cs). indexable e"
    using assms(1) by (auto dest!: in_set_dropD)
  have "byId (pruned (unshift r p s)) = foldr evict (drop ?N ?cs) (index ?cs)"
    by (simp add: pruned_def unshift_def assms(2) index_Cons)
  also have "\<dots> = index ?cs |` (- skey ` set (drop ?N ?cs))" using ix by (rule foldr_evict)
  also have "\<dots> = index (take ?N ?cs @ drop ?N ?cs) |` (- skey ` set (drop ?N ?cs))" by simp
  also have "\<dots> = index (take ?N ?cs)" using disj by (rule index_append_restrict)
  finally show ?thesis by (simp add: captures_pruned_unshift)
qed

lemma disjoint_step: "A \<subseteq> insert i B \<Longrightarrow> i \<notin> K \<Longrightarrow> K \<inter> B = {} \<Longrightarrow> K \<inter> A = {}"
  by blast

lemma add_all_index:
  assumes "0 \<le> maxCaptures s" "\<forall>e \<in> set (captures s). indexable e"
    "length (captures s) \<le> nat (maxCaptures s)"
    "byId s = index (captures s)" "distinct (map skey (captures s))"
    "distinct (map (\<lambda>a. CaptureRecord.id' (fst a)) xs)"
    "(\<lambda>a. CaptureRecord.id' (fst a)) ` set xs \<inter> skey ` set (captures s) = {}"
  shows "\<exists>s'. add_all xs s = Some (Inr (), s') \<and> maxCaptures s' = maxCaptures s
           \<and> captures s' = take (nat (maxCaptures s)) (rev (map stored xs) @ captures s)
           \<and> byId s' = index (captures s')"
  using assms
proof (induction xs arbitrary: s)
  case Nil
  then show ?case by simp
next
  case (Cons x xs)
  let ?s1 = "pruned (unshift (fst x) (snd x) s)"
  have ev0: "\<forall>e \<in> set (captures s). evictable e"
    using Cons.prems(2) by (auto intro: indexable_evictable)
  have a: "add (fst x) (snd x) s = Some (Inr (fst x), ?s1)"
    using Cons.prems(1) ev0 by (rule add_closed)
  have c1: "captures ?s1 = take (nat (maxCaptures s)) (stored x # captures s)"
    by (simp add: captures_pruned_unshift stored_def)
  have sub: "set (captures ?s1) \<subseteq> insert (stored x) (set (captures s))"
    unfolding c1 by (auto dest!: in_set_takeD)
  have ix: "\<forall>e \<in> set (captures ?s1). indexable e"
    using Cons.prems(2) sub by auto
  have m: "0 \<le> maxCaptures ?s1" using Cons.prems(1) by simp
  have len: "length (captures ?s1) \<le> nat (maxCaptures ?s1)" unfolding c1 by simp
  have fresh: "CaptureRecord.id' (fst x) \<notin> skey ` set (captures s)"
    using Cons.prems(7) by auto
  have b: "byId ?s1 = index (captures ?s1)"
    using Cons.prems(2,4,5) fresh by (rule byId_pruned_unshift)
  have dall: "distinct (map skey (stored x # captures s))"
    using Cons.prems(5) fresh by simp
  have d1: "distinct (map skey (captures ?s1))"
    unfolding c1 using dall by (simp only: take_map[symmetric] distinct_take)
  have dx: "distinct (map (\<lambda>a. CaptureRecord.id' (fst a)) xs)" using Cons.prems(6) by simp
  have f1: "skey ` set (captures ?s1) \<subseteq> insert (CaptureRecord.id' (fst x)) (skey ` set (captures s))"
    using sub by auto
  have f2: "CaptureRecord.id' (fst x) \<notin> (\<lambda>a. CaptureRecord.id' (fst a)) ` set xs"
    using Cons.prems(6) by simp
  have f3: "(\<lambda>a. CaptureRecord.id' (fst a)) ` set xs \<inter> skey ` set (captures s) = {}"
    using Cons.prems(7) by auto
  have disj: "(\<lambda>a. CaptureRecord.id' (fst a)) ` set xs \<inter> skey ` set (captures ?s1) = {}"
    by (rule disjoint_step[OF f1 f2 f3])
  from Cons.IH[OF m ix len b d1 dx disj] obtain s' where
    s': "add_all xs ?s1 = Some (Inr (), s')" "maxCaptures s' = maxCaptures s"
        "captures s' = take (nat (maxCaptures s)) (rev (map stored xs) @ captures ?s1)"
        "byId s' = index (captures s')"
    unfolding maxCaptures_pruned_unshift by blast
  have "captures s' = take (nat (maxCaptures s)) (rev (map stored (x # xs)) @ captures s)"
    unfolding s'(3) c1 take_append_take by simp
  moreover have "add_all (x # xs) s = Some (Inr (), s')" using a s'(1) by simp
  ultimately show ?case using s'(2,4) by simp
qed

lemma index_stored:
  assumes "distinct (map (\<lambda>a. CaptureRecord.id' (fst a)) ys)"
  shows "a \<in> set ys \<Longrightarrow> index (map stored ys) (CaptureRecord.id' (fst a)) = Some (stored a)"
    and "i \<notin> (\<lambda>a. CaptureRecord.id' (fst a)) ` set ys \<Longrightarrow> index (map stored ys) i = None"
proof -
  have eq: "index (map stored ys) = map_of (map (\<lambda>a. (CaptureRecord.id' (fst a), stored a)) ys)"
    by (simp add: index_def comp_def)
  have d: "distinct (map fst (map (\<lambda>a. (CaptureRecord.id' (fst a), stored a)) ys))"
    using assms by (simp add: comp_def)
  show "a \<in> set ys \<Longrightarrow> index (map stored ys) (CaptureRecord.id' (fst a)) = Some (stored a)"
    unfolding eq using d by (simp only: map_of_eq_Some_iff) auto
  show "i \<notin> (\<lambda>a. CaptureRecord.id' (fst a)) ` set ys \<Longrightarrow> index (map stored ys) i = None"
    unfolding eq by (simp add: map_of_eq_None_iff image_image)
qed

lemma get_None_iff: "(get s i = Inr None) = (byId s i = None)"
  by (simp add: get_def split: option.splits sum.splits)

lemma getReplaySource_None_iff: "(getReplaySource s i = Inr None) = (byId s i = None)"
  by (simp add: getReplaySource_def split: option.splits sum.splits)

lemma add_all_new_store_index:
  assumes "N = (case mc of None \<Rightarrow> 500 | Some n \<Rightarrow> n)" "0 \<le> N"
    "distinct (map (\<lambda>a. CaptureRecord.id' (fst a)) xs)"
  shows "\<exists>s. add_all xs (InMemoryCaptureStore mc) = Some (Inr (), s) \<and> maxCaptures s = N
           \<and> captures s = map stored (take (nat N) (rev xs))
           \<and> byId s = index (map stored (take (nat N) (rev xs)))"
proof -
  let ?init = "InMemoryCaptureStore mc"
  have "\<exists>s'. add_all xs ?init = Some (Inr (), s') \<and> maxCaptures s' = maxCaptures ?init
          \<and> captures s' = take (nat (maxCaptures ?init)) (rev (map stored xs) @ captures ?init)
          \<and> byId s' = index (captures s')"
    using assms by (intro add_all_index) (simp_all add: index_def)
  then show ?thesis using assms(1) by (auto simp: rev_map take_map)
qed

text \<open>
  Claim C2, amended.  In every state that a store reaches from its constructor by \<open>add\<close>
  calls whose records have pairwise different ids (maximum \<open>N \<ge> 0\<close>): \<open>get(id)\<close> is
  defined exactly when \<open>getReplaySource(id)\<close> is; for every record that \<open>list()\<close> returns,
  \<open>get\<close> of its id returns that record and \<open>getReplaySource\<close> of its id returns the
  replay source that was added with it; and for every other id, in particular the id
  of an evicted record, both lookups return \<open>undefined\<close>.  The index is keyed by the
  record's id: the \<open>id\<close> field of the stored ReplaySource is not compared with it.
\<close>

theorem index_follows_captures:
  assumes "N = (case mc of None \<Rightarrow> 500 | Some n \<Rightarrow> n)" "0 \<le> N"
    "distinct (map (\<lambda>a. CaptureRecord.id' (fst a)) xs)"
  shows "\<exists>s. add_all xs (InMemoryCaptureStore mc) = Some (Inr (), s)
           \<and> list' s = Inr (map (\<lambda>a. Record (fst a)) (take (nat N) (rev xs)))
           \<and> (\<forall>a \<in> set (take (nat N) (rev xs)).
                 get s (CaptureRecord.id' (fst a)) = Inr (Some (Record (fst a)))
               \<and> getReplaySource s (CaptureRecord.id' (fst a)) = Inr (Some (Replay (snd a))))
           \<and> (\<forall>i. i \<notin> (\<lambda>a. CaptureRecord.id' (fst a)) ` set (take (nat N) (rev xs))
                 \<longrightarrow> get s i = Inr None \<and> getReplaySource s i = Inr None)
           \<and> (\<forall>i. (get s i = Inr None) = (getReplaySource s i = Inr None))"
proof -
  let ?ys = "take (nat N) (rev xs)"
  from add_all_new_store_index[OF assms] obtain s where
    s: "add_all xs (InMemoryCaptureStore mc) = Some (Inr (), s)"
       "captures s = map stored ?ys" "byId s = index (map stored ?ys)"
    by blast
  have d: "distinct (map (\<lambda>a. CaptureRecord.id' (fst a)) ?ys)"
    using assms(3) by (simp only: take_map[symmetric] rev_map[symmetric] distinct_take distinct_rev)
  have l: "list' s = Inr (map (\<lambda>a. Record (fst a)) ?ys)"
    by (simp add: list'_def s(2) map_records_stored comp_def)
  have hit: "get s (CaptureRecord.id' (fst a)) = Inr (Some (Record (fst a)))
      \<and> getReplaySource s (CaptureRecord.id' (fst a)) = Inr (Some (Replay (snd a)))"
    if "a \<in> set ?ys" for a
    using index_stored(1)[OF d that] by (simp add: get_def getReplaySource_def s(3) stored_def)
  have miss: "get s i = Inr None \<and> getReplaySource s i = Inr None"
    if "i \<notin> (\<lambda>a. CaptureRecord.id' (fst a)) ` set ?ys" for i
    using index_stored(2)[OF d that] by (simp add: get_def getReplaySource_def s(3))
  have both: "(get s i = Inr None) = (getReplaySource s i = Inr None)" for i
    by (simp add: get_None_iff getReplaySource_None_iff)
  show ?thesis using s(1) l hit miss both by blast
qed

theorem index_follows_captures_witness:
  "(1::int) = (case Some 1 of None \<Rightarrow> 500 | Some n \<Rightarrow> n) \<and> (0::int) \<le> 1
   \<and> distinct (map (\<lambda>a. CaptureRecord.id' (fst a))
        [(makeCapture ''one'', makeReplay), (makeCapture ''two'', makeReplay)])
   \<and> (\<exists>s. add_all [(makeCapture ''one'', makeReplay), (makeCapture ''two'', makeReplay)]
             (InMemoryCaptureStore (Some 1)) = Some (Inr (), s)
         \<and> list' s = Inr [Record (makeCapture ''two'')]
         \<and> get s ''one'' = Inr None \<and> getReplaySource s ''one'' = Inr None
         \<and> get s ''two'' = Inr (Some (Record (makeCapture ''two'')))
         \<and> getReplaySource s ''two'' = Inr (Some (Replay makeReplay)))"
proof -
  have ids: "CaptureRecord.id' (makeCapture i) = i" for i by (simp add: makeCapture_def)
  from index_follows_captures[of 1 "Some 1"
      "[(makeCapture ''one'', makeReplay), (makeCapture ''two'', makeReplay)]"]
  obtain s where
    s: "add_all [(makeCapture ''one'', makeReplay), (makeCapture ''two'', makeReplay)]
             (InMemoryCaptureStore (Some 1)) = Some (Inr (), s)"
       "list' s = Inr [Record (makeCapture ''two'')]"
       "get s ''two'' = Inr (Some (Record (makeCapture ''two'')))
        \<and> getReplaySource s ''two'' = Inr (Some (Replay makeReplay))"
       "\<forall>i. i \<noteq> ''two'' \<longrightarrow> get s i = Inr None \<and> getReplaySource s i = Inr None"
    by (auto simp: ids)
  from s(4) have "get s ''one'' = Inr None \<and> getReplaySource s ''one'' = Inr None" by simp
  then show ?thesis using s(1,2,3) by (simp add: ids)
qed

text \<open>
  The claim as stated asks the returned ReplaySource to carry the record's id.  The
  fixtures of the repository's store test (\<open>makeCapture("one")\<close>, \<open>makeReplay()\<close> with id
  \<open>source-1\<close>) already separate the two.
\<close>

theorem replay_id_differs_counterexample:
  "\<exists>s. add (makeCapture ''one'') makeReplay (InMemoryCaptureStore (Some 1))
          = Some (Inr (makeCapture ''one''), s)
      \<and> get s ''one'' = Inr (Some (Record (makeCapture ''one'')))
      \<and> getReplaySource s ''one'' = Inr (Some (Replay makeReplay))
      \<and> ReplaySource.id' makeReplay \<noteq> CaptureRecord.id' (makeCapture ''one'')"
proof -
  let ?init = "InMemoryCaptureStore (Some 1)"
  let ?s = "pruned (unshift (makeCapture ''one'') makeReplay ?init)"
  have "add (makeCapture ''one'') makeReplay ?init = Some (Inr (makeCapture ''one''), ?s)"
    by (rule add_closed) simp_all
  moreover have "byId ?s = [''one'' \<mapsto> StoredCapture (makeCapture ''one'') makeReplay]"
    by (simp add: pruned_def unshift_def makeCapture_def)
  moreover have "ReplaySource.id' makeReplay \<noteq> CaptureRecord.id' (makeCapture ''one'')"
    by (simp add: makeReplay_def makeCapture_def)
  ultimately show ?thesis by (simp add: get_def getReplaySource_def)
qed

section \<open>Joining the paths\<close>

lemma endsWith_slash: "endsWith b ''/'' = (b \<noteq> [] \<and> last b = CHR ''/'')"
  by (cases b rule: rev_cases) (auto simp: endsWith_def suffix_to_prefix)

lemma endsWith_slash2:
  "endsWith b ''//'' = (b \<noteq> [] \<and> last b = CHR ''/'' \<and> butlast b \<noteq> [] \<and> last (butlast b) = CHR ''/'')"
proof (cases b rule: rev_cases)
  case Nil
  then show ?thesis by (simp add: endsWith_def)
next
  case (snoc ys y)
  then show ?thesis
    by (cases ys rule: rev_cases) (auto simp: endsWith_def suffix_to_prefix butlast_append)
qed

lemma startsWith_slash: "startsWith s ''/'' = (s \<noteq> [] \<and> hd s = CHR ''/'')"
  by (cases s) (auto simp: startsWith_def)

lemma startsWith_slash2:
  "startsWith s ''//'' = (s \<noteq> [] \<and> hd s = CHR ''/'' \<and> tl s \<noteq> [] \<and> hd (tl s) = CHR ''/'')"
  by (cases s; cases "tl s") (auto simp: startsWith_def)

lemma joinPath_parts:
  "joinPath basePath sub =
     (if endsWith basePath ''/'' then butlast basePath else basePath) @ ''/''
       @ (if startsWith sub ''/'' then tl sub else sub)"
proof -
  have r: "(if startsWith sub ''/'' then sub else ''/'' @ sub)
         = ''/'' @ (if startsWith sub ''/'' then tl sub else sub)"
    by (cases sub) (auto simp: startsWith_slash)
  show ?thesis unfolding joinPath_def Let_def r by simp
qed

lemma joinPath_left:
  "\<not> endsWith basePath ''//'' \<Longrightarrow>
     \<not> endsWith (if endsWith basePath ''/'' then butlast basePath else basePath) ''/''"
  by (auto simp: endsWith_slash endsWith_slash2)

lemma joinPath_right:
  "\<not> startsWith sub ''//'' \<Longrightarrow>
     \<not> startsWith (if startsWith sub ''/'' then tl sub else sub) ''/''"
  by (auto simp: startsWith_slash startsWith_slash2)

section \<open>Header redaction\<close>

lemma redactHeaders_foldl: "redactHeaders hs = foldl redact_step [] hs"
  unfolding redactHeaders_def
  by (rule arg_cong[where f = "\<lambda>f. foldl f [] hs"])
     (auto simp: fun_eq_iff redact_step_def Let_def split: option.splits)

lemma sensitive_header_patterns:
  "list_ex (\<lambda>pat. test pat name) sensitiveHeaderPatterns = sensitive_header name"
  by (simp add: sensitiveHeaderPatterns_def test_def sensitive_header_def)

lemma map_of_redact_step:
  "map_of (redact_step result (k, v)) k' =
     (if k' = k \<and> k \<noteq> ''__proto__'' \<and> v \<noteq> None \<and> v \<noteq> Some []
      then Some (if sensitive_header k then REDACTION_TOKEN else the v)
      else map_of result k')"
  by (auto simp: redact_step_def assign_def update_conv' sensitive_header_patterns
      split: option.splits)

lemma map_of_foldl_redact_step:
  assumes "distinct (map fst hs)"
  shows "map_of (foldl redact_step acc hs) k =
     (case map_of hs k of
        Some (Some v) \<Rightarrow>
          if v = [] \<or> k = ''__proto__'' then map_of acc k
          else Some (if sensitive_header k then REDACTION_TOKEN else v)
      | Some None \<Rightarrow> map_of acc k
      | None \<Rightarrow> map_of acc k)"
  using assms
proof (induction hs arbitrary: acc)
  case Nil
  then show ?case by simp
next
  case (Cons h hs)
  obtain k0 v0 where h: "h = (k0, v0)" by (cases h)
  from Cons.prems have d: "distinct (map fst hs)" and fresh: "k0 \<notin> fst ` set hs"
    by (simp_all add: h)
  have none: "map_of hs k0 = None" using fresh by (simp add: map_of_eq_None_iff)
  show ?case
  proof (cases "k = k0")
    case True
    then show ?thesis
      using Cons.IH[OF d, of "redact_step acc (k0, v0)"] none
      by (simp add: h map_of_redact_step split: option.splits)
  next
    case False
    then show ?thesis
      using Cons.IH[OF d, of "redact_step acc (k0, v0)"]
      by (simp add: h map_of_redact_step split: option.splits)
  qed
qed

text \<open>
  The result of \<open>redactHeaders\<close> on a header map (an object, so the names of its entries
  are pairwise different), looked up by name.  A header whose value is the empty string
  or \<open>undefined\<close> is not there.  Any other header whose name is not \<open>__proto__\<close> is
  there, with the redaction token as its value when its name contains one of
  \<open>authorization\<close>, \<open>cookie\<close>, \<open>token\<close>, \<open>apikey\<close>, \<open>api-key\<close>, \<open>api_key\<close>, \<open>secret\<close> in any
  letter case, and with its own value otherwise.  A name that is not in the map is not
  in the result, and neither is the name \<open>__proto__\<close>.
\<close>

lemma map_of_redactHeaders:
  assumes "distinct (map fst hs)"
  shows "map_of (redactHeaders hs) name =
     (case map_of hs name of
        Some (Some v) \<Rightarrow>
          if v = [] \<or> name = ''__proto__'' then None
          else Some (if sensitive_header name then REDACTION_TOKEN else v)
      | Some None \<Rightarrow> None
      | None \<Rightarrow> None)"
  using map_of_foldl_redact_step[OF assms, of "[]" name]
  by (simp add: redactHeaders_foldl split: option.splits)

lemma redactHeaders_example:
  "redactHeaders example_headers =
     [(''authorization'', ''[REDACTED]''), (''content-type'', ''application/json''),
      (''X-Api-Key'', ''[REDACTED]'')]"
  by (simp add: redactHeaders_def example_headers_def sensitiveHeaderPatterns_def test_def
      lower_ascii_def assign_def REDACTION_TOKEN_def)

text \<open>
  Claim C4.  The header map \<open>{"__proto__": "x", "a": "b"}\<close>, as \<open>JSON.parse\<close> or an object
  spread builds it, has two headers with values that are not empty and names that are
  not sensitive: both should pass through with their values.  \<open>redactHeaders\<close> returns the map \<open>{"a": "b"}\<close>: the assignment
  \<open>result[key] = value\<close> with the key \<open>__proto__\<close> creates no entry, so the header is lost.
\<close>

theorem redactHeaders_loses_proto_header:
  "redactHeaders proto_headers = [(''a'', ''b'')]
   \<and> map_of proto_headers ''__proto__'' = Some (Some ''x'')
   \<and> \<not> sensitive_header ''__proto__''
   \<and> map_of (redactHeaders proto_headers) ''__proto__'' = None"
  by (simp add: redactHeaders_def proto_headers_def sensitiveHeaderPatterns_def test_def
      lower_ascii_def assign_def sensitive_header_def)
section \<open>Body redaction\<close>

lemma sensitive_field_pattern: "test sensitiveFieldPattern name = sensitive_field name"
  by (simp add: sensitiveFieldPattern_def test_def sensitive_field_def)

lemma not_sensitive_empty: "\<not> sensitive_field []"
  by (simp add: sensitive_field_def lower_ascii_def)

lemma update_fresh: "k \<notin> fst ` set acc \<Longrightarrow> AList.update k v acc = acc @ [(k, v)]"
  by (induction acc) auto

lemma foldl_assign_fresh:
  assumes "distinct (map fst es)" "''__proto__'' \<notin> fst ` set es"
    "fst ` set acc \<inter> fst ` set es = {}"
  shows "foldl (\<lambda>copy kv. assign copy (fst kv) (f kv)) acc es
       = acc @ map (\<lambda>kv. (fst kv, f kv)) es"
  using assms
proof (induction es arbitrary: acc)
  case Nil
  then show ?case by simp
next
  case (Cons e es)
  have fresh: "fst e \<notin> fst ` set acc" using Cons.prems(3) by auto
  have step: "assign acc (fst e) (f e) = acc @ [(fst e, f e)]"
    using Cons.prems(2) fresh by (auto simp: assign_def update_fresh)
  have disj: "fst ` set (acc @ [(fst e, f e)]) \<inter> fst ` set es = {}"
    using Cons.prems(1,3) by auto
  show ?case
    using Cons.IH[OF _ _ disj] Cons.prems(1,2) by (simp add: step)
qed

lemma foldl_assign_map:
  assumes "distinct (map fst es)" "''__proto__'' \<notin> fst ` set es"
  shows "foldl (\<lambda>copy kv. assign copy (fst kv) (f kv)) [] es = map (\<lambda>kv. (fst kv, f kv)) es"
  using foldl_assign_fresh[OF assms, of "[]" f] by simp

text \<open>
  On a plain value \<open>redactJsonObject\<close> is the rule of the specification: in an object the
  value of a field is replaced by the token exactly when the key of the field contains
  one of \<open>token\<close>, \<open>secret\<close>, \<open>password\<close>, \<open>authorization\<close>, \<open>apikey\<close>, \<open>api-key\<close>,
  \<open>api_key\<close>, \<open>session\<close>, \<open>cookie\<close> in any letter case, so that whatever stood under a
  sensitive key is masked as a whole and not visited; the value of every other field is
  treated by the same rule, an array element by element, and strings, numbers, booleans
  and \<open>null\<close> are kept.
\<close>

lemma redactJsonObject_spec:
  "plain v \<Longrightarrow> \<not> sensitive_field parentKey \<Longrightarrow> redactJsonObject v parentKey = redact_spec v"
proof (induction v parentKey rule: redactJsonObject.induct)
  case (1 items parentKey)
  then show ?case by simp
next
  case (2 entries parentKey)
  have eq: "(\<lambda>kv. if sensitive_field (fst kv) \<or> sensitive_field parentKey then JString REDACTION_TOKEN
               else redactJsonObject (snd kv) (fst kv)) kv
      = (\<lambda>kv. if sensitive_field (fst kv) then JString REDACTION_TOKEN else redact_spec (snd kv)) kv"
    if "kv \<in> set entries" for kv
    using "2.IH"[OF that] "2.prems" that by (auto simp: sensitive_field_pattern)
  have d: "distinct (map fst entries)" and np: "''__proto__'' \<notin> fst ` set entries"
    using "2.prems"(1) by simp_all
  show ?case
    using eq by (simp add: sensitive_field_pattern foldl_assign_map[OF d np])
qed (simp_all add: sensitive_field_pattern)

lemma redactBody_plain:
  assumes "b \<noteq> []" "includes' contentType ''application/json''" "JSON_parse rt b = Inr parsed"
    "plain parsed"
  shows "redactBody rt (Some b) (Some contentType) = Some (JSON_stringify rt (redact_spec parsed) 2)"
  using assms
  by (simp add: redactBody_def redactJsonObject_spec[OF _ not_sensitive_empty])

lemma redactJsonObject_example:
  "redactJsonObject
     (JObject [(''user'', JObject [(''name'', JString ''n''), (''password'', JString ''p'')]),
               (''secret'', JObject [(''a'', JNumber 1)]),
               (''items'', JArray [JObject [(''token'', JString ''t'')]])]) []
   = JObject [(''user'', JObject [(''name'', JString ''n''), (''password'', JString ''[REDACTED]'')]),
              (''secret'', JString ''[REDACTED]''),
              (''items'', JArray [JObject [(''token'', JString ''[REDACTED]'')]])]"
  by (simp add: sensitiveFieldPattern_def test_def lower_ascii_def assign_def REDACTION_TOKEN_def)

text \<open>
  Claim C3.  The body \<open>{"__proto__":{"a":"v"},"x":"y"}\<close> parses as an object with the
  two fields \<open>__proto__\<close> and \<open>x\<close>.  Neither key is sensitive, and neither is the key \<open>a\<close>,
  so the rule of the specification keeps the whole document.  \<open>redactJsonObject\<close>
  returns an object with the one field \<open>x\<close>, and \<open>redactBody\<close> the text of that object: the
  assignment \<open>copy[key] = ...\<close> with the key \<open>__proto__\<close> creates no field, so the field
  \<open>__proto__\<close> and what stands under it are lost.
\<close>

theorem redactBody_loses_proto_field:
  \<open>JSON_parse example_runtime proto_body
     = Inr (JObject [(''__proto__'', JObject [(''a'', JString ''v'')]), (''x'', JString ''y'')])
   \<and> redact_spec (JObject [(''__proto__'', JObject [(''a'', JString ''v'')]), (''x'', JString ''y'')])
     = JObject [(''__proto__'', JObject [(''a'', JString ''v'')]), (''x'', JString ''y'')]
   \<and> redactJsonObject
       (JObject [(''__proto__'', JObject [(''a'', JString ''v'')]), (''x'', JString ''y'')]) []
     = JObject [(''x'', JString ''y'')]
   \<and> redactBody example_runtime (Some proto_body) (Some ''application/json'')
     = Some (JSON_stringify example_runtime (JObject [(''x'', JString ''y'')]) 2)
   \<and> JSON_stringify example_runtime (JObject [(''x'', JString ''y'')]) 2
     = ''{'' @ [CHR 0x0A] @ ''  "x": "y"'' @ [CHR 0x0A] @ ''}''\<close>
  by (simp add: redactBody_def example_runtime_def proto_body_def sensitiveFieldPattern_def
      test_def lower_ascii_def assign_def sensitive_field_def)
section \<open>Start-up of the file-backed store\<close>

lemma pruned_index:
  assumes "\<forall>e \<in> set (captures s). indexable e" "byId s = index (captures s)"
    "distinct (map skey (captures s))"
  shows "byId (pruned s) = index (captures (pruned s))"
proof -
  let ?cs = "captures s"
  let ?N = "nat (maxCaptures s)"
  have "distinct (map skey (take ?N ?cs @ drop ?N ?cs))"
    using assms(3) by (simp only: append_take_drop_id)
  then have disj: "skey ` set (take ?N ?cs) \<inter> skey ` set (drop ?N ?cs) = {}"
    by (simp only: map_append distinct_append set_map)
  have ix: "\<forall>e \<in> set (drop ?N ?cs). indexable e"
    using assms(1) by (auto dest!: in_set_dropD)
  have "byId (pruned s) = foldr evict (drop ?N ?cs) (index ?cs)"
    by (simp add: pruned_def assms(2))
  also have "\<dots> = index ?cs |` (- skey ` set (drop ?N ?cs))" using ix by (rule foldr_evict)
  also have "\<dots> = index (take ?N ?cs @ drop ?N ?cs) |` (- skey ` set (drop ?N ?cs))" by simp
  also have "\<dots> = index (take ?N ?cs)" using disj by (rule index_append_restrict)
  finally show ?thesis by (simp add: pruned_def)
qed

lemma index_snoc:
  assumes "skey e \<notin> skey ` set cs"
  shows "index (cs @ [e]) = (index cs)(skey e \<mapsto> e)"
proof (rule ext)
  fix k
  show "index (cs @ [e]) k = ((index cs)(skey e \<mapsto> e)) k"
  proof (cases "k = skey e")
    case True
    then have "index cs k = None" using assms by (simp add: index_None)
    then show ?thesis using True by (simp add: index_def map_add_def)
  next
    case False
    then show ?thesis by (simp add: index_def map_add_def split: option.splits)
  qed
qed

lemma string_id_indexable:
  assumes "entry_record_id (Parsed j) = Inr (Some (JString i))"
  shows "indexable (Parsed j)" "skey (Parsed j) = i"
proof -
  show "skey (Parsed j) = i" using assms by (simp add: skey_def)
  have "truthy_json j"
    using assms by (cases j) (simp_all split: sum.splits)
  then show "indexable (Parsed j)" using assms by (simp add: indexable_def)
qed

lemma hydrate_loop_closed:
  assumes "\<forall>j \<in> set js. entry_record_id (Parsed j) = Inr (Some (JString (ident j)))"
    "byId s = index (captures s)"
    "distinct (map skey (captures s) @ map ident js)"
  shows "\<exists>s'. hydrate_loop js s = (Inr (), s') \<and> maxCaptures s' = maxCaptures s
           \<and> captures s' = captures s @ map Parsed js \<and> byId s' = index (captures s')"
  using assms
proof (induction js arbitrary: s)
  case Nil
  then show ?case by simp
next
  case (Cons j js)
  have id: "entry_record_id (Parsed j) = Inr (Some (JString (ident j)))" using Cons.prems(1) by simp
  have k: "skey (Parsed j) = ident j" using id by (rule string_id_indexable(2))
  let ?s1 = "s\<lparr> captures := captures s @ [Parsed j],
                byId := (byId s)(ident j \<mapsto> Parsed j) \<rparr>"
  have step: "hydrate_loop (j # js) s = hydrate_loop js ?s1"
    using id by (simp add: Let_def)
  have fresh: "skey (Parsed j) \<notin> skey ` set (captures s)" using Cons.prems(3) k by auto
  have b1: "byId ?s1 = index (captures ?s1)"
    using index_snoc[OF fresh] Cons.prems(2) k by simp
  have d1: "distinct (map skey (captures ?s1) @ map ident js)"
    using Cons.prems(3) k by auto
  have a1: "\<forall>j \<in> set js. entry_record_id (Parsed j) = Inr (Some (JString (ident j)))"
    using Cons.prems(1) by simp
  from Cons.IH[OF a1 b1 d1] obtain s' where
    "hydrate_loop js ?s1 = (Inr (), s')" "maxCaptures s' = maxCaptures s"
    "captures s' = captures ?s1 @ map Parsed js" "byId s' = index (captures s')"
    by auto
  then show ?case using step by simp
qed

lemma prune_returns: "0 \<le> maxCaptures s \<Longrightarrow> \<exists>r. prune s = Some r"
proof (induction "length (captures s) - nat (maxCaptures s)" arbitrary: s)
  case 0
  then have "\<not> int (length (captures s)) > maxCaptures s" by linarith
  then show ?case by (simp add: prune_stop)
next
  case (Suc n)
  then have gt: "int (length (captures s)) > maxCaptures s" by linarith
  then have ne: "captures s \<noteq> []" using Suc.prems by auto
  let ?s1 = "s\<lparr> captures := butlast (captures s) \<rparr>"
  have m: "n = length (captures (?s1\<lparr> byId := b \<rparr>)) - nat (maxCaptures (?s1\<lparr> byId := b \<rparr>))" for b
    using Suc.hyps(2) by simp
  have r1: "\<exists>r. prune (?s1\<lparr> byId := b \<rparr>) = Some r" for b
    using Suc.hyps(1)[OF m] Suc.prems by simp
  have r2: "\<exists>r. prune ?s1 = Some r"
    using r1[of "byId s"] by simp
  show ?case
    using gt ne r1 r2
    by (subst prune.simps) (auto simp: Let_def split: list.splits sum.splits)
qed

lemma hydrate_returns: "0 \<le> maxCaptures s \<Longrightarrow> \<exists>r. hydrate js s = Some r"
proof -
  assume n: "0 \<le> maxCaptures s"
  have keep: "maxCaptures (snd (hydrate_loop js s)) = maxCaptures s" for js s
    by (induction js arbitrary: s) (auto simp: Let_def split: sum.splits)
  obtain r s1 where h: "hydrate_loop js s = (r, s1)" by (cases "hydrate_loop js s")
  then have "maxCaptures s1 = maxCaptures s" using keep[of js s] by simp
  then have "\<exists>r. prune s1 = Some r" using n by (intro prune_returns) simp
  then show ?thesis using h by (cases r) (auto simp: hydrate_def)
qed

lemma FileCaptureStore_returns:
  assumes "0 \<le> (case mc of None \<Rightarrow> 500 | Some n \<Rightarrow> n)"
  shows "\<exists>s. FileCaptureStore rt f mc = Some s"
proof -
  have h: "\<exists>r. hydrate js (InMemoryCaptureStore mc) = Some r" for js
    using assms by (intro hydrate_returns) simp
  have "\<exists>s. (case hydrate js (InMemoryCaptureStore mc) of
                   None \<Rightarrow> None | Some (r, s1) \<Rightarrow> Some s1) = Some s" for js
    using h[of js] by (auto split: prod.splits)
  then show ?thesis
    by (cases f) (simp_all add: FileCaptureStore_def load_def split: sum.splits)
qed

lemma FileCaptureStore_missing: "FileCaptureStore rt Missing mc = Some (InMemoryCaptureStore mc)"
  by (simp add: FileCaptureStore_def load_def)

lemma FileCaptureStore_unreadable: "FileCaptureStore rt Unreadable mc = Some (InMemoryCaptureStore mc)"
  by (simp add: FileCaptureStore_def load_def)

lemma FileCaptureStore_unparsable:
  "JSON_parse rt raw = Inl e \<Longrightarrow> FileCaptureStore rt (Content raw) mc = Some (InMemoryCaptureStore mc)"
  by (simp add: FileCaptureStore_def load_def)

lemma map_records_Parsed:
  assumes "\<forall>j \<in> set ys. \<exists>k. entry_record_id (Parsed j) = Inr k"
  shows "\<exists>rs. map_records (map Parsed ys) = Inr rs \<and> length rs = length ys
           \<and> (\<forall>n < length ys. entry_record (Parsed (ys ! n)) = Inr (rs ! n))"
  using assms
proof (induction ys)
  case Nil
  then show ?case by simp
next
  case (Cons y ys)
  from Cons.prems obtain k where "entry_record_id (Parsed y) = Inr k" by auto
  then obtain r where r: "entry_record (Parsed y) = Inr r"
    by (auto split: sum.splits)
  from Cons obtain rs where rs: "map_records (map Parsed ys) = Inr rs" "length rs = length ys"
    "\<forall>n < length ys. entry_record (Parsed (ys ! n)) = Inr (rs ! n)"
    by auto
  have "map_records (map Parsed (y # ys)) = Inr (r # rs)" using r rs(1) by simp
  moreover have "\<forall>n < length (y # ys). entry_record (Parsed ((y # ys) ! n)) = Inr ((r # rs) ! n)"
    using r rs(3) by (auto simp: nth_Cons split: nat.splits)
  ultimately show ?case using rs(2) by auto
qed

lemma index_Parsed:
  assumes "\<forall>j \<in> set ys. skey (Parsed j) = ident j" "distinct (map ident ys)"
  shows "j \<in> set ys \<Longrightarrow> index (map Parsed ys) (ident j) = Some (Parsed j)"
    and "i \<notin> ident ` set ys \<Longrightarrow> index (map Parsed ys) i = None"
proof -
  have eq: "map (\<lambda>e. (skey e, e)) (map Parsed ys) = map (\<lambda>j. (ident j, Parsed j)) ys"
    using assms(1) by simp
  have d: "distinct (map fst (map (\<lambda>j. (ident j, Parsed j)) ys))"
    using assms(2) by (simp add: comp_def)
  show "j \<in> set ys \<Longrightarrow> index (map Parsed ys) (ident j) = Some (Parsed j)"
    unfolding index_def eq using d by (simp only: map_of_eq_Some_iff) auto
  show "i \<notin> ident ` set ys \<Longrightarrow> index (map Parsed ys) i = None"
    unfolding index_def eq by (simp add: map_of_eq_None_iff image_image)
qed

text \<open>
  Claim C10.  The file parses, its \<open>captures\<close> array holds the entries \<open>entries\<close>, every
  entry has a string \<open>record.id\<close> and these ids are pairwise different; the maximum is
  \<open>N \<ge> 0\<close>.  Then the constructor of the durable store returns, and before any \<open>add\<close>
  the array \<open>captures\<close> holds the first \<open>N\<close> entries of the file in the order of the
  file, \<open>list()\<close> returns their records (at most \<open>N\<close>), and the index maps the id of
  each of these entries to the entry and has no other id.  This is the pruning of
  \<open>add\<close>: both call the one function \<open>prune\<close>.
\<close>

theorem load_prunes_snapshot:
  assumes "N = (case mc of None \<Rightarrow> 500 | Some n \<Rightarrow> n)" "0 \<le> N"
    "JSON_parse rt raw = Inr parsed" "snapshot_entries parsed = entries"
    "\<forall>j \<in> set entries. entry_record_id (Parsed j) = Inr (Some (JString (ident j)))"
    "distinct (map ident entries)"
  shows "\<exists>s rs. FileCaptureStore rt (Content raw) mc = Some s
           \<and> captures s = map Parsed (take (nat N) entries)
           \<and> list' s = Inr rs
           \<and> int (length rs) \<le> N
           \<and> length rs = min (nat N) (length entries)
           \<and> (\<forall>n < length rs. entry_record (Parsed (entries ! n)) = Inr (rs ! n))
           \<and> (\<forall>j \<in> set (take (nat N) entries). byId s (ident j) = Some (Parsed j))
           \<and> (\<forall>i. i \<notin> ident ` set (take (nat N) entries) \<longrightarrow> byId s i = None)"
proof -
  let ?init = "InMemoryCaptureStore mc"
  let ?ys = "take (nat N) entries"
  have keys: "\<forall>j \<in> set entries. skey (Parsed j) = ident j"
    using assms(5) by (auto intro: string_id_indexable(2))
  have ix: "\<forall>j \<in> set entries. indexable (Parsed j)"
    using assms(5) by (auto intro: string_id_indexable(1))
  have "\<exists>s'. hydrate_loop entries ?init = (Inr (), s') \<and> maxCaptures s' = maxCaptures ?init
           \<and> captures s' = captures ?init @ map Parsed entries \<and> byId s' = index (captures s')"
    using assms(5,6) by (intro hydrate_loop_closed) (simp_all add: index_def)
  then obtain s1 where s1: "hydrate_loop entries ?init = (Inr (), s1)" "maxCaptures s1 = N"
      "captures s1 = map Parsed entries" "byId s1 = index (captures s1)"
    using assms(1) by auto
  have ix1: "\<forall>e \<in> set (captures s1). indexable e" using ix s1(3) by auto
  have d1: "distinct (map skey (captures s1))"
    using assms(6) keys by (simp add: s1(3) comp_def cong: map_cong)
  have "\<forall>e \<in> set (drop (nat (maxCaptures s1)) (captures s1)). evictable e"
    using ix1 by (auto dest!: in_set_dropD intro: indexable_evictable)
  then have p: "prune s1 = Some (Inr (), pruned s1)"
    using assms(2) s1(2) by (intro prune_closed) simp_all
  have f: "FileCaptureStore rt (Content raw) mc = Some (pruned s1)"
    using assms(3,4) s1(1) p by (simp add: FileCaptureStore_def load_def hydrate_def)
  have c: "captures (pruned s1) = map Parsed ?ys"
    by (simp add: pruned_def s1(2,3) take_map)
  have b: "byId (pruned s1) = index (map Parsed ?ys)"
    using pruned_index[OF ix1 s1(4) d1] c by simp
  have keys': "\<forall>j \<in> set ?ys. skey (Parsed j) = ident j"
    using keys by (auto dest!: in_set_takeD)
  have d': "distinct (map ident ?ys)"
    using assms(6) by (simp only: take_map[symmetric] distinct_take)
  have hit: "\<forall>j \<in> set ?ys. byId (pruned s1) (ident j) = Some (Parsed j)"
    using index_Parsed(1)[OF keys' d'] b by simp
  have miss: "\<forall>i. i \<notin> ident ` set ?ys \<longrightarrow> byId (pruned s1) i = None"
    using index_Parsed(2)[OF keys' d'] b by simp
  have "\<forall>j \<in> set ?ys. \<exists>k. entry_record_id (Parsed j) = Inr k"
    using assms(5) by (auto dest!: in_set_takeD)
  from map_records_Parsed[OF this] obtain rs where
    rs: "map_records (map Parsed ?ys) = Inr rs" "length rs = length ?ys"
        "\<forall>n < length ?ys. entry_record (Parsed (?ys ! n)) = Inr (rs ! n)"
    by blast
  have l: "list' (pruned s1) = Inr rs" by (simp add: list'_def c rs(1))
  have len: "length rs = min (nat N) (length entries)" using rs(2) by (simp add: min.commute)
  have le: "int (length rs) \<le> N" using len assms(2) by simp
  have nth: "\<forall>n < length rs. entry_record (Parsed (entries ! n)) = Inr (rs ! n)"
    using rs(3) rs(2) by simp
  show ?thesis using f c l le len nth hit miss by blast
qed

theorem load_prunes_snapshot_witness:
  \<open>\<exists>s. FileCaptureStore example_runtime
          (Content ''{"version":1,"captures":[{"record":{"id":"c"}},{"record":{"id":"b"}},{"record":{"id":"a"}}]}'')
          (Some 2) = Some s
      \<and> captures s = [Parsed (JObject [(''record'', JObject [(''id'', JString ''c'')])]),
                      Parsed (JObject [(''record'', JObject [(''id'', JString ''b'')])])]
      \<and> list' s = Inr [RawRecord (Some (JObject [(''id'', JString ''c'')])),
                       RawRecord (Some (JObject [(''id'', JString ''b'')]))]
      \<and> byId s ''c'' = Some (Parsed (JObject [(''record'', JObject [(''id'', JString ''c'')])]))
      \<and> byId s ''b'' = Some (Parsed (JObject [(''record'', JObject [(''id'', JString ''b'')])]))
      \<and> byId s ''a'' = None\<close>
proof -
  let ?c = "JObject [(''record'', JObject [(''id'', JString ''c'')])]"
  let ?b = "JObject [(''record'', JObject [(''id'', JString ''b'')])]"
  let ?a = "JObject [(''record'', JObject [(''id'', JString ''a'')])]"
  let ?raw = \<open>''{"version":1,"captures":[{"record":{"id":"c"}},{"record":{"id":"b"}},{"record":{"id":"a"}}]}''\<close>
  let ?parsed = "JObject [(''version'', JNumber 1), (''captures'', JArray [?c, ?b, ?a])]"
  let ?ident = "\<lambda>j. if j = ?c then ''c'' else if j = ?b then ''b'' else ''a''"
  have 1: "(2::int) = (case Some 2 of None \<Rightarrow> 500 | Some n \<Rightarrow> n)" by simp
  have 2: "(0::int) \<le> 2" by simp
  have 3: "JSON_parse example_runtime ?raw = Inr ?parsed" by (simp add: example_runtime_def)
  have 4: "snapshot_entries ?parsed = [?c, ?b, ?a]" by (simp add: snapshot_entries_def)
  have 5: "\<forall>j \<in> set [?c, ?b, ?a]. entry_record_id (Parsed j) = Inr (Some (JString (?ident j)))"
    by simp
  have 6: "distinct (map ?ident [?c, ?b, ?a])" by simp
  from load_prunes_snapshot[OF 1 2 3 4 5 6] obtain s rs where
    s: "FileCaptureStore example_runtime (Content ?raw) (Some 2) = Some s"
       "captures s = map Parsed (take (nat 2) [?c, ?b, ?a])"
       "list' s = Inr rs"
       "\<forall>j \<in> set (take (nat 2) [?c, ?b, ?a]). byId s (?ident j) = Some (Parsed j)"
       "\<forall>i. i \<notin> ?ident ` set (take (nat 2) [?c, ?b, ?a]) \<longrightarrow> byId s i = None"
    by blast
  have t: "take (nat 2) [?c, ?b, ?a] = [?c, ?b]" by (simp add: numeral_2_eq_2)
  have cs: "captures s = [Parsed ?c, Parsed ?b]" using s(2) t by simp
  have l: "list' s = Inr [RawRecord (Some (JObject [(''id'', JString ''c'')])),
                         RawRecord (Some (JObject [(''id'', JString ''b'')]))]"
    by (simp add: list'_def cs)
  have h: "byId s ''c'' = Some (Parsed ?c)" "byId s ''b'' = Some (Parsed ?b)"
    using s(4) unfolding t by simp_all
  have m: "byId s ''a'' = None" using s(5) unfolding t by simp
  show ?thesis using s(1) cs l h m by blast
qed

text \<open>
  Claim C7.  The constructor returns for every file (\<open>FileCaptureStore_returns\<close>), and
  the store starts empty when the file is missing, cannot be read or does not parse.
  A file that parses and whose \<open>captures\<close> array holds an entry without a readable
  \<open>record.id\<close> is not discarded: \<open>hydrate\<close> has pushed the entries up to and including
  that one when the read throws, \<open>load\<close> swallows the exception, and the store starts
  with them.  For the file \<open>{"version":1,"captures":[null]}\<close> the array is \<open>[null]\<close> and
  \<open>list()\<close> throws a TypeError.
\<close>

theorem load_keeps_partial_state:
  \<open>\<exists>s. FileCaptureStore example_runtime (Content ''{"version":1,"captures":[null]}'') (Some 5) = Some s
      \<and> captures s = [Parsed JNull]
      \<and> list' s = Inl TypeError\<close>
  by (simp add: FileCaptureStore_def load_def example_runtime_def snapshot_entries_def hydrate_def
      InMemoryCaptureStore_def list'_def)

section \<open>Target resolution\<close>

lemma rawTarget_header:
  "map_of (request.headers req) ''x-proxylab-target'' = Some (Some (HString h))
     \<Longrightarrow> rawTarget req requestQuery = Some h"
  by (simp add: rawTarget_def)


lemma foldl_forward_query:
  "foldl (\<lambda>u (key, value').
            if key \<noteq> ''target'' then u\<lparr> searchParams := searchParams u @ [(key, value')] \<rparr>
            else u) u0 ps
   = u0\<lparr> searchParams := searchParams u0 @ filter (\<lambda>kv. fst kv \<noteq> ''target'') ps \<rparr>"
  by (induction ps arbitrary: u0) (auto simp: case_prod_unfold)

lemma pathname_resolved:
  "pathname (resolved rt base sub q) = pathname (URL_set_pathname rt base (joinPath (pathname base) sub))"
  by (simp add: resolved_def forward_query_def)

lemma buildReplaySourceFromRequest_resolved:
  assumes "URL_parse rt (url' req) (Some ''http://localhost'') = Inr q"
    "rawTarget req q = Some t" "t \<noteq> []" "URL_parse rt t None = Inr base"
  shows "buildReplaySourceFromRequest rt uuid req =
     Inr \<lparr> ReplaySource.id' = uuid,
           ReplaySource.method' = toUpperCase rt (request.method' req),
           ReplaySource.targetUrl = URL_toString rt (resolved rt base (wildcard req) q),
           ReplaySource.path = ''/'' @ wildcard req,
           ReplaySource.headers = normalizeHeaders rt (request.headers req),
           ReplaySource.body = toRawBody rt (request.body req) \<rparr>"
  using assms
  by (simp add: buildReplaySourceFromRequest_def Let_def foldl_forward_query resolved_def
      forward_query_def wildcard_def)





lemma example_runtime_fields:
  "toUpperCase example_runtime = upper_ascii"
  "toLowerCase example_runtime = lower_ascii"
  "URL_set_pathname example_runtime = set_pathname"
  "URL_toString example_runtime u = origin u @ pathname u
         @ (if searchParams u = [] then []
            else ''?'' @ join (map (\<lambda>kv. fst kv @ ''='' @ snd kv) (searchParams u)) ''&'')
         @ hash u"
  by (simp_all add: example_runtime_def)

lemma header_request_parsed:
  "URL_parse example_runtime (url' header_request) (Some ''http://localhost'')
     = Inr \<lparr> origin = ''http://localhost'', pathname = ''/proxy/v1/messages'',
             searchParams = [(''target'', ''https://api.example.com''), (''beta'', ''1'')],
             hash = [] \<rparr>"
  "map_of (request.headers header_request) ''x-proxylab-target''
     = Some (Some (HString ''https://header.example.com/api/''))"
  "URL_parse example_runtime ''https://header.example.com/api/'' None
     = Inr \<lparr> origin = ''https://header.example.com'', pathname = ''/api/'',
             searchParams = [], hash = [] \<rparr>"
  "wildcard header_request = ''v1/messages''"
  by (simp_all add: example_runtime_def header_request_def example_request_def wildcard_def)

lemma resolved_header_request:
  "URL_toString example_runtime
     (resolved example_runtime
        \<lparr> origin = ''https://header.example.com'', pathname = ''/api/'',
          searchParams = [], hash = [] \<rparr>
        ''v1/messages''
        \<lparr> origin = ''http://localhost'', pathname = ''/proxy/v1/messages'',
          searchParams = [(''target'', ''https://api.example.com''), (''beta'', ''1'')],
          hash = [] \<rparr>)
   = ''https://header.example.com/api/v1/messages?beta=1''"
  by (simp add: resolved_def forward_query_def example_runtime_def set_pathname_def joinPath_def
      endsWith_def startsWith_def suffix_to_prefix)



text \<open>
  Claim C9, amended.  The target of the request is a URL \<open>base\<close>.  The \<open>targetUrl\<close> that
  \<open>buildReplaySourceFromRequest\<close> returns is the text of the URL \<open>resolved\<close>, whose path is
  what the setter of \<open>pathname\<close> makes of the joined path.  The joined path is the path
  of \<open>base\<close> without one trailing slash, then one slash, then the sub-path without one
  leading slash: the seam never lacks a slash, and the slash at the seam is single
  whenever the path of \<open>base\<close> does not end in two slashes and the sub-path does not
  begin with two slashes.  The path of the resolved URL is the joined path itself
  whenever the setter stores the joined path as it is.
\<close>

theorem target_path_joined:
  assumes "URL_parse rt (url' req) (Some ''http://localhost'') = Inr q"
    "rawTarget req q = Some t" "t \<noteq> []" "URL_parse rt t None = Inr base"
  shows "(\<exists>src. buildReplaySourceFromRequest rt uuid req = Inr src
            \<and> ReplaySource.targetUrl src = URL_toString rt (resolved rt base (wildcard req) q))
       \<and> pathname (resolved rt base (wildcard req) q)
           = pathname (URL_set_pathname rt base (joinPath (pathname base) (wildcard req)))
       \<and> joinPath (pathname base) (wildcard req) =
           (if endsWith (pathname base) ''/'' then butlast (pathname base) else pathname base)
             @ ''/'' @ (if startsWith (wildcard req) ''/'' then tl (wildcard req) else wildcard req)
       \<and> (\<not> endsWith (pathname base) ''//'' \<longrightarrow>
            \<not> endsWith (if endsWith (pathname base) ''/'' then butlast (pathname base)
                          else pathname base) ''/'')
       \<and> (\<not> startsWith (wildcard req) ''//'' \<longrightarrow>
            \<not> startsWith (if startsWith (wildcard req) ''/'' then tl (wildcard req)
                            else wildcard req) ''/'')
       \<and> (pathname (URL_set_pathname rt base (joinPath (pathname base) (wildcard req)))
              = joinPath (pathname base) (wildcard req) \<longrightarrow>
            pathname (resolved rt base (wildcard req) q) = joinPath (pathname base) (wildcard req))"
proof -
  have 1: "\<exists>src. buildReplaySourceFromRequest rt uuid req = Inr src
            \<and> ReplaySource.targetUrl src = URL_toString rt (resolved rt base (wildcard req) q)"
    using buildReplaySourceFromRequest_resolved[OF assms, of uuid] by simp
  show ?thesis
    using 1 pathname_resolved[of rt base "wildcard req" q]
      joinPath_parts[of "pathname base" "wildcard req"]
      joinPath_left[of "pathname base"] joinPath_right[of "wildcard req"]
    by presburger
qed

theorem target_path_joined_witness:
  "URL_parse example_runtime (url' header_request) (Some ''http://localhost'')
     = Inr \<lparr> origin = ''http://localhost'', pathname = ''/proxy/v1/messages'',
             searchParams = [(''target'', ''https://api.example.com''), (''beta'', ''1'')],
             hash = [] \<rparr>
   \<and> rawTarget header_request
         \<lparr> origin = ''http://localhost'', pathname = ''/proxy/v1/messages'',
           searchParams = [(''target'', ''https://api.example.com''), (''beta'', ''1'')],
           hash = [] \<rparr>
       = Some ''https://header.example.com/api/''
   \<and> URL_parse example_runtime ''https://header.example.com/api/'' None
       = Inr \<lparr> origin = ''https://header.example.com'', pathname = ''/api/'',
               searchParams = [], hash = [] \<rparr>
   \<and> wildcard header_request = ''v1/messages''
   \<and> \<not> endsWith ''/api/'' ''//'' \<and> \<not> startsWith ''v1/messages'' ''//''
   \<and> (\<exists>src. buildReplaySourceFromRequest example_runtime ''uuid-0'' header_request = Inr src
          \<and> ReplaySource.targetUrl src = ''https://header.example.com/api/v1/messages?beta=1'')
   \<and> joinPath ''/api/'' ''v1/messages'' = ''/api/v1/messages''
   \<and> pathname (URL_set_pathname example_runtime
         \<lparr> origin = ''https://header.example.com'', pathname = ''/api/'',
           searchParams = [], hash = [] \<rparr> ''/api/v1/messages'') = ''/api/v1/messages''
   \<and> pathname (resolved example_runtime
         \<lparr> origin = ''https://header.example.com'', pathname = ''/api/'',
           searchParams = [], hash = [] \<rparr>
         ''v1/messages''
         \<lparr> origin = ''http://localhost'', pathname = ''/proxy/v1/messages'',
           searchParams = [(''target'', ''https://api.example.com''), (''beta'', ''1'')],
           hash = [] \<rparr>) = ''/api/v1/messages''"
proof -
  let ?q = "\<lparr> origin = ''http://localhost'', pathname = ''/proxy/v1/messages'',
             searchParams = [(''target'', ''https://api.example.com''), (''beta'', ''1'')],
             hash = [] \<rparr>"
  let ?base = "\<lparr> origin = ''https://header.example.com'', pathname = ''/api/'',
               searchParams = [], hash = [] \<rparr>"
  have r: "rawTarget header_request ?q = Some ''https://header.example.com/api/''"
    by (rule rawTarget_header[OF header_request_parsed(2)])
  have n: "''https://header.example.com/api/'' \<noteq> []" by simp
  have j: "joinPath ''/api/'' ''v1/messages'' = ''/api/v1/messages''"
    by (simp add: joinPath_def endsWith_def startsWith_def suffix_to_prefix)
  have s: "pathname (URL_set_pathname example_runtime ?base ''/api/v1/messages'')
             = ''/api/v1/messages''"
    by (simp add: example_runtime_def set_pathname_def)
  have e: "\<not> endsWith ''/api/'' ''//''" "\<not> startsWith ''v1/messages'' ''//''"
    by (simp_all add: endsWith_def startsWith_def suffix_to_prefix)
  from target_path_joined[OF header_request_parsed(1) r n header_request_parsed(3), of "''uuid-0''"]
  show ?thesis
    using header_request_parsed r j s e
    by (simp add: resolved_header_request)
qed

text \<open>
  Only one slash is removed on each side: a target path that ends in two slashes (or a
  sub-path that begins with two) leaves a doubled slash at the seam of the resolved
  URL.  And the path of the resolved URL is not always the joined path: the setter of
  \<open>pathname\<close> resolves the dot segments of the sub-path, so the sub-path \<open>../admin\<close> is
  not appended to the target path \<open>/api/v1\<close> but replaces its last segment.
\<close>

theorem target_path_counterexample:
  "buildReplaySourceFromRequest example_runtime ''uuid-0'' double_slash_request
     = Inr \<lparr> ReplaySource.id' = ''uuid-0'', ReplaySource.method' = ''GET'',
             ReplaySource.targetUrl = ''https://api.example.com/api//v1'',
             ReplaySource.path = ''/v1'', ReplaySource.headers = [],
             ReplaySource.body = None \<rparr>
   \<and> joinPath ''/api//'' ''v1'' = ''/api//v1''
   \<and> joinPath ''/api'' ''//v1'' = ''/api//v1''
   \<and> buildReplaySourceFromRequest example_runtime ''uuid-0'' dot_segment_request
     = Inr \<lparr> ReplaySource.id' = ''uuid-0'', ReplaySource.method' = ''GET'',
             ReplaySource.targetUrl = ''https://api.example.com/api/admin'',
             ReplaySource.path = ''/../admin'', ReplaySource.headers = [],
             ReplaySource.body = None \<rparr>
   \<and> joinPath ''/api/v1'' ''../admin'' = ''/api/v1/../admin''"
proof -
  have j: "joinPath ''/api//'' ''v1'' = ''/api//v1''" "joinPath ''/api'' ''//v1'' = ''/api//v1''"
    "joinPath ''/api/v1'' ''../admin'' = ''/api/v1/../admin''"
    by (simp_all add: joinPath_def endsWith_def startsWith_def suffix_to_prefix)
  have u: "upper_ascii ''GET'' = ''GET''" by (simp add: upper_ascii_def)
  have h: "normalizeHeaders example_runtime
             [(''x-proxylab-target'', Some (HString t))] = []" for t
    by (simp add: normalizeHeaders_def example_runtime_fields lower_ascii_def hopByHopHeaders_def)
  have p: "URL_parse example_runtime ''/proxy/v1'' (Some ''http://localhost'')
             = Inr \<lparr> origin = ''http://localhost'', pathname = ''/proxy/v1'',
                     searchParams = [], hash = [] \<rparr>"
    "URL_parse example_runtime ''/proxy/../admin'' (Some ''http://localhost'')
             = Inr \<lparr> origin = ''http://localhost'', pathname = ''/admin'',
                     searchParams = [], hash = [] \<rparr>"
    "URL_parse example_runtime ''https://api.example.com/api//'' None
             = Inr \<lparr> origin = ''https://api.example.com'', pathname = ''/api//'',
                     searchParams = [], hash = [] \<rparr>"
    "URL_parse example_runtime ''https://api.example.com/api/v1'' None
             = Inr \<lparr> origin = ''https://api.example.com'', pathname = ''/api/v1'',
                     searchParams = [], hash = [] \<rparr>"
    by (simp_all add: example_runtime_def)
  have 1: "buildReplaySourceFromRequest example_runtime ''uuid-0'' double_slash_request
     = Inr \<lparr> ReplaySource.id' = ''uuid-0'', ReplaySource.method' = ''GET'',
             ReplaySource.targetUrl = ''https://api.example.com/api//v1'',
             ReplaySource.path = ''/v1'', ReplaySource.headers = [],
             ReplaySource.body = None \<rparr>"
    using h[of "''https://api.example.com/api//''"] u
    by (simp add: buildReplaySourceFromRequest_def double_slash_request_def rawTarget_def j p
        example_runtime_fields set_pathname_def Let_def)
  have 2: "buildReplaySourceFromRequest example_runtime ''uuid-0'' dot_segment_request
     = Inr \<lparr> ReplaySource.id' = ''uuid-0'', ReplaySource.method' = ''GET'',
             ReplaySource.targetUrl = ''https://api.example.com/api/admin'',
             ReplaySource.path = ''/../admin'', ReplaySource.headers = [],
             ReplaySource.body = None \<rparr>"
    using h[of "''https://api.example.com/api/v1''"] u
    by (simp add: buildReplaySourceFromRequest_def dot_segment_request_def rawTarget_def j p
        example_runtime_fields set_pathname_def Let_def)
  show ?thesis using 1 2 j by simp
qed
section \<open>Upstream failures and replay\<close>

lemma proxy_unreachable:
  assumes "buildReplaySourceFromRequest rt (randomUUID ev 0) req = Inr replay"
    "proxyToTarget rt (fetchImpl ev) replay = Inl e"
  shows "proxy_handler rt ev req sv =
           Some (Sent \<lparr> code = 502, reply.headers = [],
                        payload = ErrorObject ''Failed to reach target API'' \<rparr>,
                 sv\<lparr> upstream_calls := upstream_calls sv @ [fetch_call rt replay] \<rparr>)"
  using assms by (simp add: proxy_handler_def Let_def)

lemma replay_unreachable:
  assumes "getReplaySource (captureStore sv) i = Inr (Some (Replay source'))" "i \<noteq> []"
    "proxyToTarget rt (fetchImpl ev) (merge_overrides rt source' ov) = Inl e"
  shows "replay_handler rt ev (Some \<lparr> ReplayRequest.id' = Some i, overrides = ov \<rparr>) sv =
           Some (Rejected e,
                 sv\<lparr> upstream_calls := upstream_calls sv @ [fetch_call rt (merge_overrides rt source' ov)] \<rparr>)"
  using assms by (simp add: replay_handler_def Let_def)

lemma proxyToTarget_fetch_failed:
  "fetchImpl' (fst (fetch_call rt replay)) (snd (fetch_call rt replay)) = Inl e
     \<Longrightarrow> proxyToTarget rt fetchImpl' replay = Inl e"
  by (simp add: proxyToTarget_def)

lemma merge_no_overrides:
  "merge_overrides rt source' None = source'"
  "merge_overrides rt source' (Some \<lparr> overrides.method' = None, overrides.targetUrl = None,
       overrides.headers = None, overrides.body = Absent \<rparr>) = source'"
  by (simp_all add: merge_overrides_def spread_def)

lemma map_of_spread:
  "distinct (map fst b) \<Longrightarrow> map_of (spread a b) = map_of a ++ map_of b"
proof (induction b arbitrary: a)
  case Nil
  then show ?case by (simp add: spread_def)
next
  case (Cons kv b)
  obtain k v where kv: "kv = (k, v)" by (cases kv)
  from Cons.prems have d: "distinct (map fst b)" and fresh: "k \<notin> fst ` set b"
    by (simp_all add: kv)
  have "spread a (kv # b) = spread (AList.update k v a) b" by (simp add: spread_def kv)
  also have "map_of \<dots> = map_of (AList.update k v a) ++ map_of b" using d by (rule Cons.IH)
  also have "\<dots> = (map_of a)(k \<mapsto> v) ++ map_of b" by (simp add: update_conv')
  also have "\<dots> = map_of a ++ map_of (kv # b)"
  proof (rule ext)
    fix x
    have "map_of b k = None" using fresh by (simp add: map_of_eq_None_iff)
    then show "((map_of a)(k \<mapsto> v) ++ map_of b) x = (map_of a ++ map_of (kv # b)) x"
      by (auto simp: map_add_def kv split: option.splits)
  qed
  finally show ?case .
qed

lemma one_capture_store:
  assumes "0 \<le> (case mc of None \<Rightarrow> 500 | Some n \<Rightarrow> n)"
  shows "add r p (InMemoryCaptureStore mc) =
           Some (Inr r, pruned (unshift r p (InMemoryCaptureStore mc)))"
  using assms by (intro add_closed) simp_all

lemma replay_handler_success:
  assumes "getReplaySource (captureStore sv) i = Inr (Some (Replay source'))" "i \<noteq> []"
    "proxyToTarget rt (fetchImpl ev) (merge_overrides rt source' ov) = Inr up"
    "0 \<le> maxCaptures (captureStore sv)" "\<forall>e \<in> set (captures (captureStore sv)). evictable e"
  shows "\<exists>record'.
           replay_handler rt ev (Some \<lparr> ReplayRequest.id' = Some i, overrides = ov \<rparr>) sv =
             Some (Sent \<lparr> code = 200, reply.headers = [], payload = ItemObject record' \<rparr>,
                   sv\<lparr> upstream_calls :=
                          upstream_calls sv @ [fetch_call rt (merge_overrides rt source' ov)],
                        captureStore :=
                          pruned (unshift record' (merge_overrides rt source' ov) (captureStore sv)) \<rparr>)
         \<and> CaptureRecord.replayOf record' = Some i
         \<and> CaptureRecord.id' record' = randomUUID ev 0
         \<and> CaptureRecord.method' record' = toUpperCase rt (ReplaySource.method' (merge_overrides rt source' ov))
         \<and> CaptureRecord.targetUrl record' = ReplaySource.targetUrl (merge_overrides rt source' ov)"
  using assms
  by (simp add: replay_handler_def Let_def withCapture_def add_closed)

lemma list_reachable:
  assumes "N = (case mc of None \<Rightarrow> 500 | Some n \<Rightarrow> n)" "0 \<le> N"
    "add_all xs (InMemoryCaptureStore mc) = Some (Inr (), st0)"
  shows "maxCaptures st0 = N" "captures st0 = map stored (take (nat N) (rev xs))"
    "\<forall>e \<in> set (captures st0). evictable e"
    "list' st0 = Inr (map (Record \<circ> fst) (take (nat N) (rev xs)))"
proof -
  from add_all_new_store[OF assms(1,2), of xs] assms(3)
  show m: "maxCaptures st0 = N" and c: "captures st0 = map stored (take (nat N) (rev xs))"
    by auto
  show "\<forall>e \<in> set (captures st0). evictable e" by (auto simp: c)
  show "list' st0 = Inr (map (Record \<circ> fst) (take (nat N) (rev xs)))"
    by (simp add: list'_def c map_records_stored)
qed

lemma list_pruned_unshift:
  assumes "captures st0 = map stored ys"
  shows "list' (pruned (unshift r p st0)) =
           Inr (take (nat (maxCaptures st0)) (Record r # map (Record \<circ> fst) ys))"
proof -
  have "StoredCapture r p # map stored ys = map stored ((r, p) # ys)"
    by (simp add: stored_def)
  then have "captures (pruned (unshift r p st0)) = map stored (take (nat (maxCaptures st0)) ((r, p) # ys))"
    by (simp only: captures_pruned_unshift assms take_map)
  moreover have "map (Record \<circ> fst) (take (nat (maxCaptures st0)) ((r, p) # ys))
      = take (nat (maxCaptures st0)) (Record r # map (Record \<circ> fst) ys)"
    using take_map[of "nat (maxCaptures st0)" "Record \<circ> fst" "(r, p) # ys"] by simp
  ultimately show ?thesis by (simp add: list'_def map_records_stored)
qed

text \<open>
  Claim C5, amended.  The store of the server was built by \<open>add\<close> calls (maximum
  \<open>N \<ge> 0\<close>), it holds a replay source under the id \<open>i\<close>, which is not the empty string,
  and the upstream call of the replay succeeds.  Then the replay handler calls
  \<open>fetchImpl\<close> once, with the merged replay source, and answers with a new record whose
  \<open>replayOf\<close> is \<open>i\<close>.  In the merged source the method is the override after
  \<open>toUpperCase()\<close> or the original method, the target URL is the override or the
  original, the headers are the original headers overridden key by key, the body is
  absent for the override \<open>null\<close>, the original body for no override and the override
  otherwise, and id and path are the original ones; with no overrides it is the
  original source.  Afterwards \<open>list()\<close> returns the new record followed by the earlier
  ones, cut to \<open>N\<close>: one record more when the store held fewer than \<open>N\<close>, and the same
  number when it held \<open>N\<close>.
\<close>

theorem replay_merges_and_records:
  assumes "N = (case mc of None \<Rightarrow> 500 | Some n \<Rightarrow> n)" "0 \<le> N"
    "add_all xs (InMemoryCaptureStore mc) = Some (Inr (), captureStore sv)"
    "getReplaySource (captureStore sv) i = Inr (Some (Replay source'))" "i \<noteq> []"
    "proxyToTarget rt (fetchImpl ev) (merge_overrides rt source' ov) = Inr up"
  shows "\<exists>record' st rs.
           replay_handler rt ev (Some \<lparr> ReplayRequest.id' = Some i, overrides = ov \<rparr>) sv =
             Some (Sent \<lparr> code = 200, reply.headers = [], payload = ItemObject record' \<rparr>,
                   sv\<lparr> upstream_calls :=
                          upstream_calls sv @ [fetch_call rt (merge_overrides rt source' ov)],
                        captureStore := st \<rparr>)
         \<and> CaptureRecord.replayOf record' = Some i
         \<and> list' (captureStore sv) = Inr rs
         \<and> list' st = Inr (take (nat N) (Record record' # rs))
         \<and> (int (length rs) < N \<longrightarrow> length (take (nat N) (Record record' # rs)) = length rs + 1)
         \<and> (int (length rs) = N \<longrightarrow> length (take (nat N) (Record record' # rs)) = length rs)
         \<and> ReplaySource.method' (merge_overrides rt source' ov) =
             (case Option.bind ov overrides.method' of
                Some m \<Rightarrow> toUpperCase rt m | None \<Rightarrow> ReplaySource.method' source')
         \<and> ReplaySource.targetUrl (merge_overrides rt source' ov) =
             (case Option.bind ov overrides.targetUrl of
                Some u \<Rightarrow> u | None \<Rightarrow> ReplaySource.targetUrl source')
         \<and> (\<forall>h. Option.bind ov overrides.headers = Some h \<and> distinct (map fst h) \<longrightarrow>
                map_of (ReplaySource.headers (merge_overrides rt source' ov)) =
                  map_of (ReplaySource.headers source') ++ map_of h)
         \<and> (Option.bind ov overrides.headers = None \<longrightarrow>
                ReplaySource.headers (merge_overrides rt source' ov) = ReplaySource.headers source')
         \<and> ReplaySource.body (merge_overrides rt source' ov) =
             (case ov of
                None \<Rightarrow> ReplaySource.body source'
              | Some o' \<Rightarrow> (case overrides.body o' of
                             Null \<Rightarrow> None
                           | Absent \<Rightarrow> ReplaySource.body source'
                           | Given b \<Rightarrow> Some b))
         \<and> ReplaySource.id' (merge_overrides rt source' ov) = ReplaySource.id' source'
         \<and> ReplaySource.path (merge_overrides rt source' ov) = ReplaySource.path source'
         \<and> (ov = None \<longrightarrow> merge_overrides rt source' ov = source')"
proof -
  let ?replay = "merge_overrides rt source' ov"
  let ?ys = "take (nat N) (rev xs)"
  let ?rs = "map (Record \<circ> fst) ?ys"
  note r = list_reachable[OF assms(1,2,3)]
  have m0: "0 \<le> maxCaptures (captureStore sv)" using r(1) assms(2) by simp
  from replay_handler_success[OF assms(4,5,6) m0 r(3)] obtain record' where
    h: "replay_handler rt ev (Some \<lparr> ReplayRequest.id' = Some i, overrides = ov \<rparr>) sv =
             Some (Sent \<lparr> code = 200, reply.headers = [], payload = ItemObject record' \<rparr>,
                   sv\<lparr> upstream_calls := upstream_calls sv @ [fetch_call rt ?replay],
                        captureStore := pruned (unshift record' ?replay (captureStore sv)) \<rparr>)"
    and ro: "CaptureRecord.replayOf record' = Some i"
    by blast
  have l: "list' (pruned (unshift record' ?replay (captureStore sv))) =
             Inr (take (nat N) (Record record' # ?rs))"
    using list_pruned_unshift[OF r(2), of record' ?replay] r(1) by simp
  have g1: "int (length ?rs) < N \<longrightarrow> length (take (nat N) (Record record' # ?rs)) = length ?rs + 1"
    by auto
  have g2: "int (length ?rs) = N \<longrightarrow> length (take (nat N) (Record record' # ?rs)) = length ?rs"
    by auto
  have hd: "\<forall>h. Option.bind ov overrides.headers = Some h \<and> distinct (map fst h) \<longrightarrow>
                map_of (ReplaySource.headers ?replay) = map_of (ReplaySource.headers source') ++ map_of h"
    by (auto simp: merge_overrides_def map_of_spread)
  have hn: "Option.bind ov overrides.headers = None \<longrightarrow>
                ReplaySource.headers ?replay = ReplaySource.headers source'"
    by (auto simp: merge_overrides_def spread_def)
  have rest: "ReplaySource.method' ?replay =
             (case Option.bind ov overrides.method' of
                Some m \<Rightarrow> toUpperCase rt m | None \<Rightarrow> ReplaySource.method' source')"
      "ReplaySource.targetUrl ?replay =
             (case Option.bind ov overrides.targetUrl of
                Some u \<Rightarrow> u | None \<Rightarrow> ReplaySource.targetUrl source')"
      "ReplaySource.body ?replay =
             (case ov of
                None \<Rightarrow> ReplaySource.body source'
              | Some o' \<Rightarrow> (case overrides.body o' of
                             Null \<Rightarrow> None
                           | Absent \<Rightarrow> ReplaySource.body source'
                           | Given b \<Rightarrow> Some b))"
      "ReplaySource.id' ?replay = ReplaySource.id' source'"
      "ReplaySource.path ?replay = ReplaySource.path source'"
      "ov = None \<longrightarrow> ?replay = source'"
    by (simp_all add: merge_overrides_def spread_def)
  note facts = h ro r(4) l g1 g2 hd hn rest
  show ?thesis
    by (rule exI[of _ record'],
        rule exI[of _ "pruned (unshift record' ?replay (captureStore sv))"],
        rule exI[of _ ?rs])
       (intro conjI; rule facts)
qed

lemma one_capture_reached:
  "0 \<le> (case mc of None \<Rightarrow> 500 | Some n \<Rightarrow> n) \<Longrightarrow>
   add_all [(makeCapture ''one'', makeReplay)] (InMemoryCaptureStore mc)
     = Some (Inr (), one_capture mc)"
  by (simp add: one_capture_store one_capture_def)

lemma one_capture_simps:
  "0 < (case mc of None \<Rightarrow> 500 | Some n \<Rightarrow> n) \<Longrightarrow>
     captures (one_capture mc) = [StoredCapture (makeCapture ''one'') makeReplay]"
  "0 < (case mc of None \<Rightarrow> 500 | Some n \<Rightarrow> n) \<Longrightarrow>
     byId (one_capture mc) = [''one'' \<mapsto> StoredCapture (makeCapture ''one'') makeReplay]"
  "maxCaptures (one_capture mc) = (case mc of None \<Rightarrow> 500 | Some n \<Rightarrow> n)"
  by (auto simp: one_capture_def pruned_def unshift_def makeCapture_def nat_le_iff
      split: option.splits)

lemma proxyToTarget_example:
  "proxyToTarget rt (fetchImpl example_env) replay = Inr example_upstream"
  by (simp add: proxyToTarget_def example_env_def example_fetch_def example_upstream_def assign_def)

theorem replay_merges_and_records_witness:
  "(5::int) = (case Some 5 of None \<Rightarrow> 500 | Some n \<Rightarrow> n) \<and> (0::int) \<le> 5
   \<and> add_all [(makeCapture ''one'', makeReplay)] (InMemoryCaptureStore (Some 5))
       = Some (Inr (), one_capture (Some 5))
   \<and> getReplaySource (one_capture (Some 5)) ''one'' = Inr (Some (Replay makeReplay))
   \<and> ''one'' \<noteq> []
   \<and> proxyToTarget example_runtime (fetchImpl example_env) (merge_overrides example_runtime makeReplay (Some example_overrides))
       = Inr example_upstream
   \<and> (\<exists>record' st.
         replay_handler example_runtime example_env
             (Some \<lparr> ReplayRequest.id' = Some ''one'', overrides = Some example_overrides \<rparr>)
             \<lparr> captureStore = one_capture (Some 5), upstream_calls = [] \<rparr>
           = Some (Sent \<lparr> code = 200, reply.headers = [], payload = ItemObject record' \<rparr>,
                   \<lparr> captureStore = st,
                     upstream_calls =
                       [fetch_call example_runtime (merge_overrides example_runtime makeReplay (Some example_overrides))] \<rparr>)
       \<and> CaptureRecord.replayOf record' = Some ''one''
       \<and> list' st = Inr [Record record', Record (makeCapture ''one'')])
   \<and> ReplaySource.method' (merge_overrides example_runtime makeReplay (Some example_overrides)) = ''PUT''
   \<and> ReplaySource.body (merge_overrides example_runtime makeReplay (Some example_overrides)) = None
   \<and> ReplaySource.headers (merge_overrides example_runtime makeReplay (Some example_overrides))
       = [(''content-type'', ''application/json''), (''x-extra'', ''1'')]"
proof -
  let ?sv = "\<lparr> captureStore = one_capture (Some 5), upstream_calls = [] \<rparr>"
  have 1: "(5::int) = (case Some 5 of None \<Rightarrow> 500 | Some n \<Rightarrow> n)" by simp
  have 2: "(0::int) \<le> 5" by simp
  have 3: "add_all [(makeCapture ''one'', makeReplay)] (InMemoryCaptureStore (Some 5))
       = Some (Inr (), captureStore ?sv)"
    using one_capture_reached[of "Some 5"] by simp
  have 4: "getReplaySource (captureStore ?sv) ''one'' = Inr (Some (Replay makeReplay))"
    by (simp add: getReplaySource_def one_capture_simps)
  have 5: "''one'' \<noteq> []" by simp
  have 6: "proxyToTarget example_runtime (fetchImpl example_env) (merge_overrides example_runtime makeReplay (Some example_overrides))
       = Inr example_upstream"
    by (rule proxyToTarget_example)
  have l0: "list' (captureStore ?sv) = Inr [Record (makeCapture ''one'')]"
    by (simp add: list'_def one_capture_simps)
  from replay_merges_and_records[OF 1 2 3 4 5 6]
  obtain record' st rs where
    r: "replay_handler example_runtime example_env
             (Some \<lparr> ReplayRequest.id' = Some ''one'', overrides = Some example_overrides \<rparr>) ?sv
           = Some (Sent \<lparr> code = 200, reply.headers = [], payload = ItemObject record' \<rparr>,
                   ?sv\<lparr> upstream_calls := upstream_calls ?sv
                            @ [fetch_call example_runtime (merge_overrides example_runtime makeReplay (Some example_overrides))],
                         captureStore := st \<rparr>)"
       "CaptureRecord.replayOf record' = Some ''one''"
       "list' (captureStore ?sv) = Inr rs"
       "list' st = Inr (take (nat 5) (Record record' # rs))"
    by blast
  have rs: "rs = [Record (makeCapture ''one'')]" using r(3) l0 by simp
  have t: "take (nat 5) (Record record' # rs) = [Record record', Record (makeCapture ''one'')]"
    by (simp add: rs)
  have m: "ReplaySource.method' (merge_overrides example_runtime makeReplay (Some example_overrides)) = ''PUT''"
    "ReplaySource.body (merge_overrides example_runtime makeReplay (Some example_overrides)) = None"
    "ReplaySource.headers (merge_overrides example_runtime makeReplay (Some example_overrides))
       = [(''content-type'', ''application/json''), (''x-extra'', ''1'')]"
    by (simp_all add: merge_overrides_def example_overrides_def makeReplay_def example_runtime_fields upper_ascii_def
        spread_def)
  show ?thesis
    using 1 2 3 4 5 6 r(1,2) r(4)[unfolded t] m by (auto simp del: add_all.simps)
qed

text \<open>
  The claim as stated lets every replay grow the capture list by one.  A store that
  is full evicts its oldest record on the same \<open>add\<close>: with maximum 1 and one capture,
  the list has one record before the replay and one record after it.  And the method
  of the merged source is not the override itself: the override \<open>put\<close> gives \<open>PUT\<close>.
\<close>

theorem replay_full_store_counterexample:
  "add_all [(makeCapture ''one'', makeReplay)] (InMemoryCaptureStore (Some 1))
       = Some (Inr (), one_capture (Some 1))
   \<and> list' (one_capture (Some 1)) = Inr [Record (makeCapture ''one'')]
   \<and> (\<exists>record' st.
         replay_handler example_runtime example_env
             (Some \<lparr> ReplayRequest.id' = Some ''one'', overrides = None \<rparr>)
             \<lparr> captureStore = one_capture (Some 1), upstream_calls = [] \<rparr>
           = Some (Sent \<lparr> code = 200, reply.headers = [], payload = ItemObject record' \<rparr>,
                   \<lparr> captureStore = st, upstream_calls = [fetch_call example_runtime makeReplay] \<rparr>)
       \<and> list' st = Inr [Record record'])
   \<and> overrides.method' example_overrides = Some ''put''
   \<and> ReplaySource.method' (merge_overrides example_runtime makeReplay (Some example_overrides))
       = ''PUT''"
proof -
  let ?sv = "\<lparr> captureStore = one_capture (Some 1), upstream_calls = [] \<rparr>"
  have c: "captures (one_capture (Some 1)) = map stored [(makeCapture ''one'', makeReplay)]"
    by (simp add: one_capture_simps stored_def)
  have g: "getReplaySource (captureStore ?sv) ''one'' = Inr (Some (Replay makeReplay))"
    by (simp add: getReplaySource_def one_capture_simps)
  have p: "proxyToTarget example_runtime (fetchImpl example_env) (merge_overrides example_runtime makeReplay None) = Inr example_upstream"
    by (rule proxyToTarget_example)
  have m: "0 \<le> maxCaptures (captureStore ?sv)" by (simp add: one_capture_simps)
  have e: "\<forall>e \<in> set (captures (captureStore ?sv)). evictable e" by (simp add: c)
  from replay_handler_success[OF g _ p m e] obtain record' where
    h: "replay_handler example_runtime example_env
             (Some \<lparr> ReplayRequest.id' = Some ''one'', overrides = None \<rparr>) ?sv
          = Some (Sent \<lparr> code = 200, reply.headers = [], payload = ItemObject record' \<rparr>,
                  ?sv\<lparr> upstream_calls := upstream_calls ?sv @ [fetch_call example_runtime (merge_overrides example_runtime makeReplay None)],
                        captureStore := pruned (unshift record' (merge_overrides example_runtime makeReplay None)
                                                 (captureStore ?sv)) \<rparr>)"
    by auto
  have l: "list' (pruned (unshift record' (merge_overrides example_runtime makeReplay None) (one_capture (Some 1))))
      = Inr [Record record']"
    using list_pruned_unshift[OF c, of record' "merge_overrides example_runtime makeReplay None"]
    by (simp add: one_capture_simps)
  have l0: "list' (one_capture (Some 1)) = Inr [Record (makeCapture ''one'')]"
    by (simp add: list'_def one_capture_simps)
  have a: "add_all [(makeCapture ''one'', makeReplay)] (InMemoryCaptureStore (Some 1))
       = Some (Inr (), one_capture (Some 1))"
    using one_capture_reached[of "Some 1"] by simp
  have u: "overrides.method' example_overrides = Some ''put''"
    "ReplaySource.method' (merge_overrides example_runtime makeReplay (Some example_overrides))
       = ''PUT''"
    by (simp_all add: merge_overrides_def example_overrides_def example_runtime_fields
        upper_ascii_def)
  show ?thesis
    using a h l l0 u by (simp add: merge_no_overrides del: add_all.simps)
qed

text \<open>
  Claim C6.  When the upstream call fails the store is left as it was on both paths
  (\<open>proxy_unreachable\<close>, \<open>replay_unreachable\<close>).  The proxy handler catches the
  exception and sends status 502.  The replay handler has no \<open>try\<close> around
  \<open>proxyToTarget\<close>: the exception leaves the handler, which sends nothing.  The theorem
  evaluates both handlers on a server that holds one capture and whose \<open>fetchImpl\<close>
  rejects.
\<close>

theorem replay_unreachable_rejects:
  "add_all [(makeCapture ''one'', makeReplay)] (InMemoryCaptureStore None)
       = Some (Inr (), one_capture None)
   \<and> replay_handler example_runtime unreachable_env
        (Some \<lparr> ReplayRequest.id' = Some ''one'', overrides = None \<rparr>)
        \<lparr> captureStore = one_capture None, upstream_calls = [] \<rparr>
      = Some (Rejected FetchFailed,
              \<lparr> captureStore = one_capture None, upstream_calls = [fetch_call example_runtime makeReplay] \<rparr>)
   \<and> (\<exists>calls.
        proxy_handler example_runtime unreachable_env example_request
          \<lparr> captureStore = one_capture None, upstream_calls = [] \<rparr>
        = Some (Sent \<lparr> code = 502, reply.headers = [],
                       payload = ErrorObject ''Failed to reach target API'' \<rparr>,
                \<lparr> captureStore = one_capture None, upstream_calls = calls \<rparr>))"
proof -
  let ?sv = "\<lparr> captureStore = one_capture None, upstream_calls = [] \<rparr>"
  have g: "getReplaySource (captureStore ?sv) ''one'' = Inr (Some (Replay makeReplay))"
    by (simp add: getReplaySource_def one_capture_simps)
  have f: "proxyToTarget example_runtime (fetchImpl unreachable_env) replay = Inl FetchFailed" for replay
    by (simp add: proxyToTarget_def unreachable_env_def)
  have r: "replay_handler example_runtime unreachable_env
        (Some \<lparr> ReplayRequest.id' = Some ''one'', overrides = None \<rparr>) ?sv
      = Some (Rejected FetchFailed,
              \<lparr> captureStore = one_capture None, upstream_calls = [fetch_call example_runtime makeReplay] \<rparr>)"
    using replay_unreachable[OF g _ f, where ov = None]
    by (simp add: merge_no_overrides)
  have "\<exists>replay. buildReplaySourceFromRequest example_runtime (randomUUID unreachable_env 0)
           example_request = Inr replay"
    by (simp add: buildReplaySourceFromRequest_def rawTarget_def example_runtime_def
        example_request_def Let_def)
  then obtain replay where
    b: "buildReplaySourceFromRequest example_runtime (randomUUID unreachable_env 0) example_request
          = Inr replay"
    by blast
  have p: "proxy_handler example_runtime unreachable_env example_request ?sv
        = Some (Sent \<lparr> code = 502, reply.headers = [],
                       payload = ErrorObject ''Failed to reach target API'' \<rparr>,
                \<lparr> captureStore = one_capture None, upstream_calls = [fetch_call example_runtime replay] \<rparr>)"
    using proxy_unreachable[OF b f, of ?sv] by simp
  have a: "add_all [(makeCapture ''one'', makeReplay)] (InMemoryCaptureStore None)
       = Some (Inr (), one_capture None)"
    using one_capture_reached[of None] by simp
  show ?thesis using a r p by (simp del: add_all.simps)
qed

end
